theory Spec2Isabelle
  imports Main "HOL-Library.Word"
begin

section \<open>Errors and library functions used by the service\<close>

text \<open>
  The exceptions that the modelled code can meet: \<open>ValueError\<close> (tuple unpacking of a
  list of the wrong length), \<open>UnicodeEncodeError\<close> (\<open>str.encode\<close> meets a character that
  UTF-8 cannot encode), \<open>IntegrityError\<close> (a uniqueness constraint of the store refuses a
  row) and \<open>ValidationError\<close> (an input schema refuses a field). In Python
  \<open>UnicodeEncodeError\<close> is a subclass of \<open>ValueError\<close>, so \<open>except ValueError\<close> catches
  both.
\<close>

datatype error = ValueError | UnicodeEncodeError | IntegrityError | ValidationError

definition is_ValueError :: "error \<Rightarrow> bool" where
  "is_ValueError e = (e = ValueError \<or> e = UnicodeEncodeError)"

text \<open>
  A Python \<open>str\<close> is the list of its code points, and \<open>bytes\<close> a list of 8-bit
  words. \<open>lit\<close> gives the \<open>str\<close> of a literal of the source, and \<open>code\<close> the code point
  of one of its characters. The code points from \<open>0xD800\<close> to \<open>0xDFFF\<close> are the
  surrogates: a \<open>str\<close> may hold them, and \<open>str.encode()\<close> raises \<open>UnicodeEncodeError\<close> on
  a \<open>str\<close> that holds one.
\<close>

type_synonym str = "nat list"

definition code :: "char \<Rightarrow> nat" where
  "code c = of_char c"

definition lit :: "string \<Rightarrow> str" where
  "lit cs = map code cs"

definition is_surrogate :: "nat \<Rightarrow> bool" where
  "is_surrogate c = (55296 \<le> c \<and> c \<le> 57343)"

definition encodable :: "str \<Rightarrow> bool" where
  "encodable s = (\<not> list_ex is_surrogate s)"

text \<open>
  \<open>s.split(c)\<close> for a one-character separator: the pieces between the occurrences of
  \<open>c\<close>, so a string with \<open>n\<close> separators gives \<open>n + 1\<close> pieces.
\<close>

fun split_chr :: "'a \<Rightarrow> 'a list \<Rightarrow> 'a list list" where
  "split_chr c [] = [[]]"
| "split_chr c (x # xs) =
     (if x = c then [] # split_chr c xs
      else (case split_chr c xs of
              [] \<Rightarrow> [[x]]
            | y # ys \<Rightarrow> (x # y) # ys))"

text \<open>\<open>a, b = xs\<close>: unpacking into two names raises \<open>ValueError\<close> unless \<open>xs\<close> has two items.\<close>

definition unpack2 :: "'a list \<Rightarrow> error + ('a \<times> 'a)" where
  "unpack2 xs = (case xs of [a, b] \<Rightarrow> Inr (a, b) | _ \<Rightarrow> Inl ValueError)"

text \<open>\<open>binascii.hexlify\<close>: two lower-case hexadecimal digits per byte, high nibble first.\<close>

definition hex_digit :: "nat \<Rightarrow> nat" where
  "hex_digit n = code (''0123456789abcdef'' ! n)"

fun hexlify :: "8 word list \<Rightarrow> str" where
  "hexlify [] = []"
| "hexlify (b # bs) = hex_digit (unat b div 16) # hex_digit (unat b mod 16) # hexlify bs"

text \<open>
  \<open>secrets.token_hex(n)\<close> is \<open>hexlify\<close> of \<open>n\<close> bytes drawn from the system's random
  source; the drawn bytes are the argument \<open>rnd\<close>.
\<close>

definition token_hex :: "8 word list \<Rightarrow> str" where
  "token_hex rnd = hexlify rnd"

text \<open>
  \<open>base64.urlsafe_b64encode\<close>: three bytes give four characters of the URL-safe
  alphabet; a last group of one or two bytes is padded with \<open>=\<close>.
\<close>

definition b64_char :: "nat \<Rightarrow> nat" where
  "b64_char n =
     code (''ABCDEFGHIJKLMNOPQRSTUVWXYZabcdefghijklmnopqrstuvwxyz0123456789-_'' ! n)"

fun urlsafe_b64encode :: "8 word list \<Rightarrow> str" where
  "urlsafe_b64encode [] = []"
| "urlsafe_b64encode [a] =
     [b64_char (unat a div 4), b64_char (unat a mod 4 * 16), code (CHR ''=''), code (CHR ''='')]"
| "urlsafe_b64encode [a, b] =
     [b64_char (unat a div 4), b64_char (unat a mod 4 * 16 + unat b div 16),
      b64_char (unat b mod 16 * 4), code (CHR ''='')]"
| "urlsafe_b64encode (a # b # c # r) =
     [b64_char (unat a div 4), b64_char (unat a mod 4 * 16 + unat b div 16),
      b64_char (unat b mod 16 * 4 + unat c div 64), b64_char (unat c mod 64)]
     @ urlsafe_b64encode r"

text \<open>\<open>s.rstrip(c)\<close> for a one-character argument.\<close>

definition rstrip_chr :: "'a \<Rightarrow> 'a list \<Rightarrow> 'a list" where
  "rstrip_chr c s = rev (dropWhile (\<lambda>x. x = c) (rev s))"

text \<open>
  \<open>secrets.token_urlsafe(n)\<close> is the URL-safe base64 text of \<open>n\<close> random bytes with the
  padding stripped; the drawn bytes are the argument \<open>rnd\<close>.
\<close>

definition token_urlsafe :: "8 word list \<Rightarrow> str" where
  "token_urlsafe rnd = rstrip_chr (code (CHR ''='')) (urlsafe_b64encode rnd)"

section \<open>Password hashing (\<open>auth_service.py\<close>)\<close>

text \<open>
  \<open>hashlib.sha256\<close> is not part of the repository. It enters every definition as the
  parameter \<open>D\<close>: for a \<open>str\<close> that UTF-8 can encode, \<open>D s\<close> stands for
  \<open>hashlib.sha256(s.encode()).digest()\<close>. \<open>sha256_hexdigest\<close> is the expression
  \<open>hashlib.sha256(s.encode()).hexdigest()\<close> of the source: the encoding raises on a
  surrogate, and the \<open>hexdigest\<close> is \<open>hexlify\<close> of the digest.
\<close>

type_synonym digest = "str \<Rightarrow> 8 word list"

definition sha256_hexdigest :: "digest \<Rightarrow> str \<Rightarrow> error + str" where
  "sha256_hexdigest D s = (if encodable s then Inr (hexlify (D s)) else Inl UnicodeEncodeError)"

definition hash_password :: "digest \<Rightarrow> 8 word list \<Rightarrow> str \<Rightarrow> error + str" where
  "hash_password D rnd password =
     (let salt = token_hex rnd
      in case sha256_hexdigest D (password @ salt) of
           Inl e \<Rightarrow> Inl e
         | Inr password_hash \<Rightarrow> Inr (salt @ lit '':'' @ password_hash))"

text \<open>
  The body of the \<open>try\<close> block of \<open>verify_password\<close>, and the function with its handler.
  The handler catches \<open>ValueError\<close> and its subclasses only: it logs one message through
  \<open>logging.info\<close> and returns \<open>False\<close>; any other exception would leave the function. The
  result carries the list of messages logged by the call.
\<close>

definition verify_password_try :: "digest \<Rightarrow> str \<Rightarrow> str \<Rightarrow> error + bool" where
  "verify_password_try D password password_hash =
     (case unpack2 (split_chr (code (CHR '':'')) password_hash) of
        Inl e \<Rightarrow> Inl e
      | Inr (salt, stored_hash) \<Rightarrow>
          (case sha256_hexdigest D (password @ salt) of
             Inl e \<Rightarrow> Inl e
           | Inr password_hash_check \<Rightarrow> Inr (stored_hash = password_hash_check)))"

definition verify_password :: "digest \<Rightarrow> str \<Rightarrow> str \<Rightarrow> error + (bool \<times> str list)" where
  "verify_password D password password_hash =
     (case verify_password_try D password password_hash of
        Inr b \<Rightarrow> Inr (b, [])
      | Inl e \<Rightarrow>
          if is_ValueError e
          then Inr (False, [lit ''Invalid password hash format: '' @ password_hash])
          else Inl e)"

section \<open>Data model (\<open>models.py\<close>)\<close>

text \<open>A \<open>datetime\<close> is a number of microseconds on the UTC time line.\<close>

type_synonym datetime = int

text \<open>
  The rows of the tables \<open>users\<close> and \<open>user_sessions\<close>. The primary keys are
  \<open>Optional[int]\<close> in the source, \<open>None\<close> until the store assigns one. The fields \<open>id\<close>,
  \<open>created_at\<close> and \<open>is_active\<close> of \<open>UserSession\<close> carry the prefix \<open>s_\<close>, and the
  \<open>id\<close> of \<open>User\<close> is \<open>u_id\<close>.
\<close>

record user =
  u_id :: "int option"
  username :: str
  email :: str
  password_hash :: str
  full_name :: str
  is_active :: bool
  is_authenticated :: bool
  last_login :: "datetime option"
  created_at :: datetime
  updated_at :: datetime

record user_session =
  s_id :: "int option"
  user_id :: int
  session_token :: str
  expires_at :: datetime
  s_created_at :: datetime
  s_is_active :: bool

text \<open>The input schemas \<open>UserCreate\<close> and \<open>UserLogin\<close>.\<close>

record user_create =
  uc_username :: str
  uc_email :: str
  uc_password :: str
  uc_full_name :: str

record user_login =
  ul_username :: str
  ul_password :: str

text \<open>
  Constructing a schema object validates its fields: \<open>max_length\<close> and \<open>min_length\<close>
  bound the number of characters, and a field out of bounds raises \<open>ValidationError\<close>.
  The check runs when the object is constructed and not when a field is assigned
  afterwards, so the functions below take the record as it is handed to them.
\<close>

definition UserCreate :: "str \<Rightarrow> str \<Rightarrow> str \<Rightarrow> str \<Rightarrow> error + user_create" where
  "UserCreate u e p f =
     (if length u \<le> 50 \<and> length e \<le> 255 \<and> 6 \<le> length p \<and> length f \<le> 100
      then Inr \<lparr>uc_username = u, uc_email = e, uc_password = p, uc_full_name = f\<rparr>
      else Inl ValidationError)"

definition UserLogin :: "str \<Rightarrow> str \<Rightarrow> error + user_login" where
  "UserLogin u p =
     (if length u \<le> 50 \<and> 1 \<le> length p
      then Inr \<lparr>ul_username = u, ul_password = p\<rparr>
      else Inl ValidationError)"

section \<open>The store\<close>

text \<open>
  Modelled from the spec: the durable relational store behind \<open>get_session\<close>
  (\<open>app/database.py\<close> is not among the sources). The spec describes it as a
  transactional store with point lookups by primary key and by the unique columns and
  with enforced uniqueness of \<open>session_token\<close>. A table is the list of its rows in
  insertion order; \<open>.first()\<close> of a query is the first row that satisfies the condition;
  an \<open>UPDATE\<close> of a loaded object rewrites the rows with its primary key; an insert
  assigns the next primary key; a transaction that fails leaves the store as it was.
  The foreign key of \<open>user_id\<close> is not checked on insert: an engine that checks it
  refuses some inserts that succeed here, and leaves the store unchanged when it does.
\<close>

record db =
  users :: "user list"
  user_sessions :: "user_session list"

definition empty_db :: db where
  "empty_db = \<lparr>users = [], user_sessions = []\<rparr>"

definition next_id :: "int option list \<Rightarrow> int" where
  "next_id pks = fold (\<lambda>pk m. case pk of None \<Rightarrow> m | Some i \<Rightarrow> max i m) pks 0 + 1"

definition get_user :: "db \<Rightarrow> int \<Rightarrow> user option" where
  "get_user d pk = find (\<lambda>u. u_id u = Some pk) (users d)"

definition update_user :: "int option \<Rightarrow> (user \<Rightarrow> user) \<Rightarrow> user list \<Rightarrow> user list" where
  "update_user pk f rows = map (\<lambda>r. if u_id r = pk then f r else r) rows"

definition update_session ::
  "int option \<Rightarrow> (user_session \<Rightarrow> user_session) \<Rightarrow> user_session list \<Rightarrow> user_session list" where
  "update_session pk f rows = map (\<lambda>r. if s_id r = pk then f r else r) rows"

section \<open>The authentication service (\<open>auth_service.py\<close>)\<close>

text \<open>
  Every operation takes the store and returns it with its result. The random bytes a
  call draws are the argument \<open>rnd\<close>, and each reading of the clock
  (\<open>datetime.utcnow()\<close>) is an argument of its own: \<open>now\<close> for the reading in the body
  of the function, and \<open>created\<close> and \<open>updated\<close> for the later readings by which the
  default factories fill \<open>created_at\<close> and \<open>updated_at\<close> of a new row.
\<close>

definition create_user ::
  "digest \<Rightarrow> db \<Rightarrow> user_create \<Rightarrow> 8 word list \<Rightarrow> datetime \<Rightarrow> datetime
   \<Rightarrow> (error + user option) \<times> db" where
  "create_user D d user_data rnd created updated =
     (case find (\<lambda>u. username u = uc_username user_data \<or> email u = uc_email user_data)
             (users d) of
        Some existing_user \<Rightarrow> (Inr None, d)
      | None \<Rightarrow>
          (case hash_password D rnd (uc_password user_data) of
             Inl e \<Rightarrow> (Inl e, d)
           | Inr hashed \<Rightarrow>
               (let user = \<lparr>u_id = Some (next_id (map u_id (users d))),
                            username = uc_username user_data,
                            email = uc_email user_data,
                            password_hash = hashed,
                            full_name = uc_full_name user_data,
                            is_active = True,
                            is_authenticated = False,
                            last_login = None,
                            created_at = created,
                            updated_at = updated\<rparr>
                in (Inr (Some user), d\<lparr>users := users d @ [user]\<rparr>))))"

definition authenticate_user ::
  "digest \<Rightarrow> db \<Rightarrow> user_login \<Rightarrow> datetime \<Rightarrow> (error + user option) \<times> db" where
  "authenticate_user D d login_data now =
     (case find (\<lambda>u. username u = ul_username login_data) (users d) of
        None \<Rightarrow> (Inr None, d)
      | Some user \<Rightarrow>
          if \<not> is_active user then (Inr None, d)
          else (case verify_password D (ul_password login_data) (password_hash user) of
                  Inl e \<Rightarrow> (Inl e, d)
                | Inr (ok, logged) \<Rightarrow>
                    if \<not> ok then (Inr None, d)
                    else (let upd = (\<lambda>r. r\<lparr>last_login := Some now, is_authenticated := True\<rparr>)
                          in (Inr (Some (upd user)),
                              d\<lparr>users := update_user (u_id user) upd (users d)\<rparr>))))"

text \<open>The session horizon \<open>timedelta(hours=24)\<close>, in microseconds.\<close>

definition session_lifetime :: int where
  "session_lifetime = 24 * 3600 * 1000000"

definition create_session ::
  "db \<Rightarrow> int \<Rightarrow> 8 word list \<Rightarrow> datetime \<Rightarrow> datetime \<Rightarrow> (error + user_session) \<times> db" where
  "create_session d uid rnd now created =
     (let existing_sessions = filter (\<lambda>s. user_id s = uid \<and> s_is_active s) (user_sessions d);
          rows = fold (\<lambda>existing_session rows.
                         update_session (s_id existing_session) (\<lambda>r. r\<lparr>s_is_active := False\<rparr>) rows)
                   existing_sessions (user_sessions d);
          token = token_urlsafe rnd;
          expires = now + session_lifetime;
          user_session = \<lparr>s_id = Some (next_id (map s_id (user_sessions d))),
                          user_id = uid,
                          session_token = token,
                          expires_at = expires,
                          s_created_at = created,
                          s_is_active = True\<rparr>
      in if token \<in> set (map session_token (user_sessions d)) then (Inl IntegrityError, d)
         else (Inr user_session, d\<lparr>user_sessions := rows @ [user_session]\<rparr>))"

definition validate_session :: "db \<Rightarrow> str option \<Rightarrow> datetime \<Rightarrow> user option \<times> db" where
  "validate_session d session_token_opt now =
     (case session_token_opt of
        None \<Rightarrow> (None, d)
      | Some token \<Rightarrow>
          if token = [] then (None, d)
          else (case find (\<lambda>s. session_token s = token \<and> s_is_active s \<and> expires_at s > now)
                       (user_sessions d) of
                  None \<Rightarrow> (None, d)
                | Some user_session \<Rightarrow>
                    (case get_user d (user_id user_session) of
                       None \<Rightarrow> (None, d)
                     | Some user \<Rightarrow> if \<not> is_active user then (None, d) else (Some user, d))))"

definition logout_user :: "db \<Rightarrow> str option \<Rightarrow> bool \<times> db" where
  "logout_user d session_token_opt =
     (case session_token_opt of
        None \<Rightarrow> (False, d)
      | Some token \<Rightarrow>
          if token = [] then (False, d)
          else (case find (\<lambda>s. session_token s = token \<and> s_is_active s) (user_sessions d) of
                  None \<Rightarrow> (False, d)
                | Some user_session \<Rightarrow>
                    (let rows = update_session (s_id user_session)
                                  (\<lambda>r. r\<lparr>s_is_active := False\<rparr>) (user_sessions d);
                         urows = (case get_user d (user_id user_session) of
                                    None \<Rightarrow> users d
                                  | Some user \<Rightarrow>
                                      update_user (u_id user)
                                        (\<lambda>r. r\<lparr>is_authenticated := False\<rparr>) (users d))
                     in (True, \<lparr>users = urows, user_sessions = rows\<rparr>))))"

section \<open>The middleware's client storage (\<open>auth_middleware.py\<close>)\<close>

text \<open>
  \<open>app.storage.user\<close> is a dictionary of the connected client. \<open>get_redirect_url\<close> reads
  it with \<open>dict.get\<close> and a default; the result is paired with the storage after the
  call.
\<close>

type_synonym storage = "str \<rightharpoonup> str"

definition get_redirect_url :: "storage \<Rightarrow> str \<times> storage" where
  "get_redirect_url st =
     ((case st (lit ''redirect_after_login'') of None \<Rightarrow> lit ''/dashboard'' | Some v \<Rightarrow> v),
      st)"

section \<open>Invariants of the store\<close>

text \<open>The active sessions of a user, and the invariant that a user has at most one.\<close>

definition active_sessions :: "db \<Rightarrow> int \<Rightarrow> user_session list" where
  "active_sessions d uid = filter (\<lambda>s. user_id s = uid \<and> s_is_active s) (user_sessions d)"

definition single_active :: "db \<Rightarrow> bool" where
  "single_active d = (\<forall>uid. length (active_sessions d uid) \<le> 1)"

text \<open>The uniqueness constraint on \<open>session_token\<close>.\<close>

definition tokens_distinct :: "db \<Rightarrow> bool" where
  "tokens_distinct d = distinct (map session_token (user_sessions d))"

text \<open>The stores that the operations of the service build from the empty one.\<close>

inductive reachable :: "digest \<Rightarrow> db \<Rightarrow> bool" for D :: digest where
  r_init: "reachable D empty_db"
| r_create_user:
    "reachable D d \<Longrightarrow> reachable D (snd (create_user D d user_data rnd created updated))"
| r_authenticate: "reachable D d \<Longrightarrow> reachable D (snd (authenticate_user D d login_data now))"
| r_create_session:
    "reachable D d \<Longrightarrow> reachable D (snd (create_session d uid rnd now created))"
| r_validate: "reachable D d \<Longrightarrow> reachable D (snd (validate_session d tok now))"
| r_logout: "reachable D d \<Longrightarrow> reachable D (snd (logout_user d tok))"

text \<open>
  Two stores that differ at most in the \<open>is_authenticated\<close> flags of their users: the
  same sessions, and user rows that agree once the flag of one is copied to the other.
\<close>

definition differ_only_in_is_authenticated :: "db \<Rightarrow> db \<Rightarrow> bool" where
  "differ_only_in_is_authenticated d d' =
     (user_sessions d' = user_sessions d \<and>
      list_all2 (\<lambda>u u'. u'\<lparr>is_authenticated := is_authenticated u\<rparr> = u) (users d) (users d'))"

section \<open>A concrete store\<close>

text \<open>
  Concrete values for the instances below: a stand-in for the digest, the random bytes
  of one salt and of two tokens, the demo account of \<open>login.py\<close>, and the stores after
  its creation and after two logins.
\<close>

definition toy_digest :: digest where
  "toy_digest s = [of_nat (length s)]"

definition demo_salt :: "8 word list" where
  "demo_salt = [0x99, 0x51, 0x0f, 0x10, 0xb3, 0xab, 0xce, 0x21,
                0x76, 0x75, 0xff, 0xa5, 0x24, 0xb9, 0x8e, 0x33]"

definition demo_create :: user_create where
  "demo_create = \<lparr>uc_username = lit ''demo'', uc_email = lit ''demo@example.com'',
                   uc_password = lit ''demo123'', uc_full_name = lit ''Demo User''\<rparr>"

definition demo_user :: user where
  "demo_user = \<lparr>u_id = Some 1, username = lit ''demo'', email = lit ''demo@example.com'',
                 password_hash = lit ''99510f10b3abce217675ffa524b98e33:27'',
                 full_name = lit ''Demo User'', is_active = True,
                 is_authenticated = False, last_login = None, created_at = 500,
                 updated_at = 501\<rparr>"

definition demo_db :: db where
  "demo_db = \<lparr>users = [demo_user], user_sessions = []\<rparr>"

definition demo_rnd1 :: "8 word list" where
  "demo_rnd1 = [0x9b, 0xa6, 0x86, 0xd9, 0x6a, 0xab, 0x83, 0x4c,
                  0xa8, 0x17, 0xa9, 0xac, 0x2a, 0x6e, 0x6e, 0x57,
                  0x78, 0x6c, 0xf8, 0x7b, 0x6c, 0x64, 0xd7, 0xdd,
                  0x08, 0x6f, 0xce, 0x98, 0x43, 0x89, 0x52, 0x9b]"

definition demo_rnd2 :: "8 word list" where
  "demo_rnd2 = [0x71, 0x05, 0xac, 0x51, 0x99, 0x16, 0x16, 0x69,
                  0xce, 0x07, 0xa1, 0xf7, 0x6a, 0x63, 0x06, 0x86,
                  0x1c, 0x3d, 0x5a, 0x53, 0x91, 0xf0, 0xbb, 0x39,
                  0x3c, 0xe4, 0x09, 0x1f, 0x1c, 0xf5, 0x39, 0x8c]"

definition demo_token1 :: str where
  "demo_token1 = lit ''m6aG2Wqrg0yoF6msKm5uV3hs-HtsZNfdCG_OmEOJUps''"

definition demo_token2 :: str where
  "demo_token2 = lit ''cQWsUZkWFmnOB6H3amMGhhw9WlOR8Ls5POQJHxz1OYw''"

definition demo_session1 :: user_session where
  "demo_session1 = \<lparr>s_id = Some 1, user_id = 1, session_token = demo_token1,
                     expires_at = 86400001000, s_created_at = 1003, s_is_active = True\<rparr>"

definition demo_session2 :: user_session where
  "demo_session2 = \<lparr>s_id = Some 2, user_id = 1, session_token = demo_token2,
                     expires_at = 86400002000, s_created_at = 2004, s_is_active = True\<rparr>"

definition demo_db1 :: db where
  "demo_db1 = \<lparr>users = [demo_user], user_sessions = [demo_session1]\<rparr>"

definition demo_db2 :: db where
  "demo_db2 = \<lparr>users = [demo_user],
                user_sessions = [demo_session1\<lparr>s_is_active := False\<rparr>, demo_session2]\<rparr>"

section \<open>Lemmas about the library functions\<close>

lemma code_eq_iff: "code c = code c' \<longleftrightarrow> c = c'"
  by (simp add: code_def)

lemma code_less_256: "code c < 256"
proof -
  have "code c mod 256 = code c" unfolding code_def by (rule of_char_mod_256)
  moreover have "code c mod 256 < 256" by simp
  ultimately show ?thesis by simp
qed

lemma code_not_surrogate: "\<not> is_surrogate (code c)"
  using code_less_256 [of c] by (simp add: is_surrogate_def)

lemma lit_colon: "lit '':'' = [code (CHR '':'')]"
  by (simp add: lit_def)

lemma lit_eq_iff: "lit a = lit b \<longleftrightarrow> a = b"
proof -
  have "inj code" by (simp add: inj_def code_eq_iff)
  then show ?thesis unfolding lit_def by (rule inj_map_eq_map)
qed

lemma encodable_append: "encodable (a @ b) \<longleftrightarrow> encodable a \<and> encodable b"
  by (auto simp: encodable_def)

lemma encodable_lit: "encodable (lit cs)"
  by (simp add: encodable_def lit_def list_ex_iff code_not_surrogate)

lemma hex_digit_mem: "n < 16 \<Longrightarrow> hex_digit n \<in> code ` set ''0123456789abcdef''"
  unfolding hex_digit_def by (intro imageI nth_mem) simp

lemma hex_digit_not_colon: "n < 16 \<Longrightarrow> hex_digit n \<noteq> code (CHR '':'')"
  using hex_digit_mem [of n] by (auto simp: code_eq_iff)

lemma hex_digit_inj: "m < 16 \<Longrightarrow> n < 16 \<Longrightarrow> hex_digit m = hex_digit n \<Longrightarrow> m = n"
  unfolding hex_digit_def code_eq_iff
  by (subst (asm) nth_eq_iff_index_eq) simp_all

lemma unat8_div16: "unat (a::8 word) div 16 < 16"
proof -
  have "unat a < 256" using unsigned_less [of a, where 'a = nat] by simp
  then show ?thesis by simp
qed

lemma colon_notin_hexlify: "code (CHR '':'') \<notin> set (hexlify bs)"
proof (induction bs)
  case Nil
  then show ?case by simp
next
  case (Cons a bs)
  have "hex_digit (unat a div 16) \<noteq> code (CHR '':'')"
    by (rule hex_digit_not_colon [OF unat8_div16])
  moreover have "hex_digit (unat a mod 16) \<noteq> code (CHR '':'')"
    by (rule hex_digit_not_colon) simp
  ultimately show ?case using Cons by auto
qed

lemma encodable_hexlify: "encodable (hexlify bs)"
proof -
  have "\<not> is_surrogate c" if "c \<in> set (hexlify bs)" for c
    using that by (induction bs) (auto simp: hex_digit_def code_not_surrogate)
  then show ?thesis by (auto simp: encodable_def list_ex_iff)
qed

lemma byte_nibbles:
  assumes "unat (a::8 word) div 16 = unat (b::8 word) div 16" "unat a mod 16 = unat b mod 16"
  shows "a = b"
proof -
  have "unat a = 16 * (unat a div 16) + unat a mod 16" by simp
  also have "\<dots> = 16 * (unat b div 16) + unat b mod 16" using assms by simp
  also have "\<dots> = unat b" by simp
  finally show ?thesis by (rule word_unat_eq_iff [THEN iffD2])
qed

lemma hexlify_inj: "hexlify xs = hexlify ys \<Longrightarrow> xs = ys"
proof (induction xs arbitrary: ys)
  case Nil
  then show ?case by (cases ys) simp_all
next
  case (Cons a xs)
  then obtain b ys' where ys: "ys = b # ys'" by (cases ys) auto
  from Cons.prems ys have d: "hex_digit (unat a div 16) = hex_digit (unat b div 16)"
    and m: "hex_digit (unat a mod 16) = hex_digit (unat b mod 16)"
    and r: "hexlify xs = hexlify ys'" by simp_all
  have "unat a div 16 = unat b div 16"
    using d by (rule hex_digit_inj [OF unat8_div16 unat8_div16])
  moreover have "unat a mod 16 = unat b mod 16"
    using m by (rule hex_digit_inj [rotated 2]) simp_all
  ultimately have "a = b" by (rule byte_nibbles)
  with Cons.IH [OF r] ys show ?case by simp
qed

lemma split_chr_nonempty: "split_chr c s \<noteq> []"
  by (induction s) (auto split: list.splits)

lemma split_chr_no_sep: "c \<notin> set s \<Longrightarrow> split_chr c s = [s]"
  by (induction s) auto

lemma split_chr_one_sep: "c \<notin> set a \<Longrightarrow> c \<notin> set b \<Longrightarrow> split_chr c (a @ c # b) = [a, b]"
  by (induction a) (auto simp: split_chr_no_sep)

lemma length_split_chr: "length (split_chr c s) = Suc (count_list s c)"
  by (induction s) (auto split: list.splits simp: split_chr_nonempty)

lemma unpack2_length: "length xs \<noteq> 2 \<Longrightarrow> unpack2 xs = Inl ValueError"
  by (auto simp: unpack2_def split: list.splits)

section \<open>Password hashing\<close>

lemma hash_password_eq:
  "hash_password D rnd p =
     (if encodable p
      then Inr (token_hex rnd @ lit '':'' @ hexlify (D (p @ token_hex rnd)))
      else Inl UnicodeEncodeError)"
  by (simp add: hash_password_def sha256_hexdigest_def Let_def token_hex_def
      encodable_append encodable_hexlify)

lemma verify_stored_form:
  "verify_password D p (token_hex rnd @ lit '':'' @ hexlify dg) =
     (if encodable p then Inr (hexlify dg = hexlify (D (p @ token_hex rnd)), [])
      else Inr (False, [lit ''Invalid password hash format: ''
                          @ token_hex rnd @ lit '':'' @ hexlify dg]))"
  unfolding verify_password_def verify_password_try_def sha256_hexdigest_def token_hex_def
    lit_colon
  by (simp add: split_chr_one_sep colon_notin_hexlify unpack2_def encodable_append
      encodable_hexlify is_ValueError_def)

lemma verify_hash:
  assumes "hash_password D rnd p2 = Inr h"
  shows "verify_password D p h =
           (if encodable p then Inr (D (p @ token_hex rnd) = D (p2 @ token_hex rnd), [])
            else Inr (False, [lit ''Invalid password hash format: '' @ h]))"
proof -
  from assms have h: "h = token_hex rnd @ lit '':'' @ hexlify (D (p2 @ token_hex rnd))"
    by (simp add: hash_password_eq split: if_splits)
  show ?thesis unfolding h verify_stored_form by (auto dest: hexlify_inj)
qed

lemma hash_salt_inj:
  assumes "hash_password D rnd p = Inr h" "hash_password D rnd' p' = Inr h"
  shows "rnd = rnd'"
proof -
  from assms have "token_hex rnd @ lit '':'' @ hexlify (D (p @ token_hex rnd))
      = token_hex rnd' @ lit '':'' @ hexlify (D (p' @ token_hex rnd'))"
    by (simp add: hash_password_eq split: if_splits)
  then have "split_chr (code (CHR '':'')) (token_hex rnd @ lit '':'' @ hexlify (D (p @ token_hex rnd)))
      = split_chr (code (CHR '':'')) (token_hex rnd' @ lit '':'' @ hexlify (D (p' @ token_hex rnd')))"
    by simp
  then have "hexlify rnd = hexlify rnd'"
    unfolding token_hex_def lit_colon
    by (simp add: split_chr_one_sep colon_notin_hexlify)
  then show ?thesis by (rule hexlify_inj)
qed

lemma verify_returns: "\<exists>b l. verify_password D p h = Inr (b, l)"
  unfolding verify_password_def verify_password_try_def sha256_hexdigest_def
  by (auto simp: unpack2_def is_ValueError_def split: sum.splits list.splits)

lemma verify_malformed:
  "count_list h (code (CHR '':'')) \<noteq> 1 \<Longrightarrow>
   verify_password D p h = Inr (False, [lit ''Invalid password hash format: '' @ h])"
  unfolding verify_password_def verify_password_try_def
  by (simp add: unpack2_length length_split_chr is_ValueError_def)

section \<open>Sessions\<close>

lemma fold_deactivate:
  "fold (\<lambda>e rows. update_session (s_id e) (\<lambda>r. r\<lparr>s_is_active := False\<rparr>) rows) es rows
   = map (\<lambda>r. if s_id r \<in> s_id ` set es then r\<lparr>s_is_active := False\<rparr> else r) rows"
proof (induction es arbitrary: rows)
  case Nil
  then show ?case by simp
next
  case (Cons e es)
  show ?case
    unfolding fold_simps Cons.IH
    by (auto simp: update_session_def)
qed

lemma filter_map_shrinks:
  assumes "\<And>r. P (f r) \<Longrightarrow> P r"
  shows "length (filter P (map f rows)) \<le> length (filter P rows)"
  using assms by (induction rows) (auto simp: le_SucI)

lemma active_after_update:
  "length (filter (\<lambda>s. user_id s = u \<and> s_is_active s) (update_session pk (\<lambda>r. r\<lparr>s_is_active := False\<rparr>) rows))
   \<le> length (filter (\<lambda>s. user_id s = u \<and> s_is_active s) rows)"
  unfolding update_session_def by (rule filter_map_shrinks) (simp split: if_splits)

lemma create_session_rows:
  assumes "create_session d uid rnd now created = (Inr s, d')"
  shows "user_sessions d' =
           map (\<lambda>r. if s_id r \<in> s_id ` set (active_sessions d uid) then r\<lparr>s_is_active := False\<rparr> else r)
             (user_sessions d) @ [s]"
    and "users d' = users d"
    and "s = \<lparr>s_id = Some (next_id (map s_id (user_sessions d))), user_id = uid,
              session_token = token_urlsafe rnd, expires_at = now + session_lifetime,
              s_created_at = created, s_is_active = True\<rparr>"
    and "token_urlsafe rnd \<notin> session_token ` set (user_sessions d)"
  using assms unfolding create_session_def Let_def fold_deactivate active_sessions_def
  by (auto split: if_splits)

lemma create_session_error:
  "create_session d uid rnd now created = (Inl e, d') \<Longrightarrow> d' = d"
  unfolding create_session_def Let_def by (auto split: if_splits)

lemma create_session_only_active:
  assumes "create_session d uid rnd now created = (Inr s, d')"
  shows "active_sessions d' uid = [s]"
proof -
  let ?f = "\<lambda>r. if s_id r \<in> s_id ` set (active_sessions d uid) then r\<lparr>s_is_active := False\<rparr> else r"
  have "filter (\<lambda>s. user_id s = uid \<and> s_is_active s) (map ?f (user_sessions d)) = []"
    by (auto simp: filter_empty_conv active_sessions_def)
  then show ?thesis
    using create_session_rows(1,3) [OF assms] by (simp add: active_sessions_def)
qed

lemma create_session_other_active:
  assumes "create_session d uid rnd now created = (Inr s, d')" "u \<noteq> uid"
  shows "length (active_sessions d' u) \<le> length (active_sessions d u)"
proof -
  let ?f = "\<lambda>r. if s_id r \<in> s_id ` set (active_sessions d uid) then r\<lparr>s_is_active := False\<rparr> else r"
  have "length (filter (\<lambda>s. user_id s = u \<and> s_is_active s) (map ?f (user_sessions d)))
        \<le> length (filter (\<lambda>s. user_id s = u \<and> s_is_active s) (user_sessions d))"
    by (rule filter_map_shrinks) (simp split: if_splits)
  then show ?thesis
    using create_session_rows(1,3) [OF assms(1)] assms(2) by (simp add: active_sessions_def)
qed

lemma single_active_create_session:
  assumes "single_active d"
  shows "single_active (snd (create_session d uid rnd now created))"
proof (cases "create_session d uid rnd now created")
  case (Pair res d')
  show ?thesis
  proof (cases res)
    case (Inl e)
    with Pair have "d' = d" by (simp add: create_session_error)
    with Pair assms show ?thesis by simp
  next
    case (Inr s)
    have "length (active_sessions d' u) \<le> 1" for u
    proof (cases "u = uid")
      case True
      then show ?thesis using create_session_only_active Pair Inr by simp
    next
      case False
      have "length (active_sessions d' u) \<le> length (active_sessions d u)"
        using create_session_other_active Pair Inr False by blast
      also have "\<dots> \<le> 1" using assms by (simp add: single_active_def)
      finally show ?thesis .
    qed
    then show ?thesis using Pair by (simp add: single_active_def)
  qed
qed

lemma validate_session_snd: "snd (validate_session d tok now) = d"
  unfolding validate_session_def by (simp split: option.splits)

lemma logout_user_sessions:
  "user_sessions (snd (logout_user d tok)) = user_sessions d \<or>
   (\<exists>pk. user_sessions (snd (logout_user d tok)) = update_session pk (\<lambda>r. r\<lparr>s_is_active := False\<rparr>) (user_sessions d))"
  unfolding logout_user_def Let_def by (auto split: option.splits)

lemma single_active_logout_user:
  assumes "single_active d"
  shows "single_active (snd (logout_user d tok))"
proof -
  have "length (active_sessions (snd (logout_user d tok)) u) \<le> length (active_sessions d u)" for u
    using logout_user_sessions [of d tok] active_after_update
    by (auto simp: active_sessions_def)
  then show ?thesis using assms unfolding single_active_def by (meson order_trans)
qed

lemma create_user_sessions:
  "user_sessions (snd (create_user D d ud rnd created updated)) = user_sessions d"
  unfolding create_user_def Let_def by (simp split: option.splits sum.splits)

lemma authenticate_user_sessions: "user_sessions (snd (authenticate_user D d ld now)) = user_sessions d"
  unfolding authenticate_user_def Let_def by (simp split: option.splits sum.splits prod.splits)

lemma reachable_single_active: "reachable D d \<Longrightarrow> single_active d"
proof (induction rule: reachable.induct)
  case r_init
  then show ?case by (simp add: single_active_def active_sessions_def empty_db_def)
next
  case (r_create_user d user_data rnd created updated)
  then show ?case by (simp add: single_active_def active_sessions_def create_user_sessions)
next
  case (r_authenticate d login_data now)
  then show ?case by (simp add: single_active_def active_sessions_def authenticate_user_sessions)
next
  case (r_create_session d uid rnd now created)
  from r_create_session.IH show ?case by (rule single_active_create_session)
next
  case (r_validate d tok now)
  then show ?case by (simp add: validate_session_snd)
next
  case (r_logout d tok)
  from r_logout.IH show ?case by (rule single_active_logout_user)
qed

text \<open>The uniqueness of session tokens is an invariant of the service as well.\<close>

lemma tokens_update_session:
  "map session_token (update_session pk (\<lambda>r. r\<lparr>s_is_active := False\<rparr>) rows) = map session_token rows"
  by (simp add: update_session_def comp_def)

lemma tokens_distinct_create_session:
  assumes "tokens_distinct d"
  shows "tokens_distinct (snd (create_session d uid rnd now created))"
proof (cases "create_session d uid rnd now created")
  case (Pair res d')
  show ?thesis
  proof (cases res)
    case (Inl e)
    with Pair have "d' = d" by (simp add: create_session_error)
    with Pair assms show ?thesis by simp
  next
    case (Inr s)
    note r = create_session_rows [OF Pair [unfolded Inr]]
    have "map session_token (user_sessions d') = map session_token (user_sessions d) @ [token_urlsafe rnd]"
      unfolding r(1) using r(3) by (simp add: comp_def)
    then show ?thesis using assms r(4) Pair by (simp add: tokens_distinct_def)
  qed
qed

lemma tokens_distinct_logout_user:
  assumes "tokens_distinct d"
  shows "tokens_distinct (snd (logout_user d tok))"
  using logout_user_sessions [of d tok] assms
  by (auto simp: tokens_distinct_def tokens_update_session)

lemma reachable_tokens_distinct: "reachable D d \<Longrightarrow> tokens_distinct d"
proof (induction rule: reachable.induct)
  case r_init
  then show ?case by (simp add: tokens_distinct_def empty_db_def)
next
  case (r_create_user d user_data rnd created updated)
  then show ?case by (simp add: tokens_distinct_def create_user_sessions)
next
  case (r_authenticate d login_data now)
  then show ?case by (simp add: tokens_distinct_def authenticate_user_sessions)
next
  case (r_create_session d uid rnd now created)
  from r_create_session.IH show ?case by (rule tokens_distinct_create_session)
next
  case (r_validate d tok now)
  then show ?case by (simp add: validate_session_snd)
next
  case (r_logout d tok)
  from r_logout.IH show ?case by (rule tokens_distinct_logout_user)
qed

lemma b64_char_not_pad: "n < 64 \<Longrightarrow> b64_char n \<noteq> code (CHR ''='')"
proof -
  assume "n < 64"
  then have "b64_char n
      \<in> code ` set ''ABCDEFGHIJKLMNOPQRSTUVWXYZabcdefghijklmnopqrstuvwxyz0123456789-_''"
    unfolding b64_char_def by (intro imageI nth_mem) simp
  then show ?thesis by (auto simp: code_eq_iff)
qed

lemma unat8_div4: "unat (a::8 word) div 4 < 64"
proof -
  have "unat a < 256" using unsigned_less [of a, where 'a = nat] by simp
  then show ?thesis by simp
qed

lemma urlsafe_b64encode_head:
  "rnd \<noteq> [] \<Longrightarrow> \<exists>rest. urlsafe_b64encode rnd = b64_char (unat (hd rnd) div 4) # rest"
  by (cases rnd rule: urlsafe_b64encode.cases) simp_all

lemma token_urlsafe_nonempty: "rnd \<noteq> [] \<Longrightarrow> token_urlsafe rnd \<noteq> []"
proof -
  assume "rnd \<noteq> []"
  then obtain rest where e: "urlsafe_b64encode rnd = b64_char (unat (hd rnd) div 4) # rest"
    using urlsafe_b64encode_head by blast
  have "b64_char (unat (hd rnd) div 4) \<noteq> code (CHR ''='')"
    by (rule b64_char_not_pad [OF unat8_div4])
  then show ?thesis
    unfolding token_urlsafe_def rstrip_chr_def e
    by (simp add: dropWhile_eq_Nil_conv)
qed

lemma find_append:
  "find P (xs @ ys) = (case find P xs of None \<Rightarrow> find P ys | Some x \<Rightarrow> Some x)"
  by (induction xs) auto

lemma find_map_same:
  assumes "\<And>x. P (g x) = P x"
  shows "find P (map g xs) = map_option g (find P xs)"
  using assms by (induction xs) auto

lemma find_unique:
  assumes "x \<in> set xs" "P x" "\<And>y. y \<in> set xs \<Longrightarrow> P y \<Longrightarrow> y = x"
  shows "find P xs = Some x"
proof (cases "find P xs")
  case None
  with assms(1,2) show ?thesis by (auto simp: find_None_iff)
next
  case (Some y)
  then have "y \<in> set xs" "P y" by (auto simp: find_Some_iff in_set_conv_nth)
  with assms(3) Some show ?thesis by simp
qed

lemma find_SomeD: "find P xs = Some x \<Longrightarrow> x \<in> set xs \<and> P x"
  by (auto simp: find_Some_iff in_set_conv_nth)

lemma tokens_distinct_eq:
  assumes "tokens_distinct d" "s \<in> set (user_sessions d)" "r \<in> set (user_sessions d)"
    "session_token r = session_token s"
  shows "r = s"
  using assms unfolding tokens_distinct_def distinct_map by (auto dest: inj_onD)

lemma create_session_twice:
  assumes c1: "create_session d uid r1 t1 c1 = (Inr s1, d1)"
    and c2: "create_session d1 uid r2 t2 c2 = (Inr s2, d2)"
  shows "session_token s1 \<noteq> session_token s2"
    and "fst (validate_session d2 (Some (session_token s1)) t3) = None"
    and "get_user d uid = Some u \<Longrightarrow> is_active u \<Longrightarrow> r2 \<noteq> [] \<Longrightarrow> t3 < t2 + session_lifetime
         \<Longrightarrow> fst (validate_session d2 (Some (session_token s2)) t3) = Some u"
proof -
  note r1 = create_session_rows [OF c1]
  note r2 = create_session_rows [OF c2]
  let ?f1 = "\<lambda>r. if s_id r \<in> s_id ` set (active_sessions d uid) then r\<lparr>s_is_active := False\<rparr> else r"
  let ?f2 = "\<lambda>r. if s_id r \<in> s_id ` set (active_sessions d1 uid) then r\<lparr>s_is_active := False\<rparr> else r"
  have tok1: "session_token s1 = token_urlsafe r1" and tok2: "session_token s2 = token_urlsafe r2"
    using r1(3) r2(3) by simp_all
  have s1_in: "s1 \<in> set (user_sessions d1)" using r1(1) by simp
  show ne: "session_token s1 \<noteq> session_token s2"
    using r2(4) s1_in tok2 by force
  have uid1: "user_id s1 = uid" using r1(3) by simp
  have old: "user_id r = uid" if "r \<in> set (user_sessions d1)" "session_token r = session_token s1" for r
  proof -
    from that(1) r1(1) consider r0 where "r0 \<in> set (user_sessions d)" "r = ?f1 r0" | "r = s1" by auto
    then show ?thesis
    proof cases
      case 1
      then have "session_token r0 = session_token r" by (simp split: if_splits)
      with that(2) tok1 r1(4) 1(1) show ?thesis by force
    next
      case 2
      with uid1 show ?thesis by simp
    qed
  qed
  have none1: "\<not> (session_token s = session_token s1 \<and> s_is_active s)" if "s \<in> set (user_sessions d2)" for s
  proof
    assume a: "session_token s = session_token s1 \<and> s_is_active s"
    with ne have "s \<noteq> s2" by auto
    with that r2(1) obtain r where r: "r \<in> set (user_sessions d1)" "s = ?f2 r" by auto
    then have "session_token r = session_token s1" "user_id s = user_id r" using a by (simp_all split: if_splits)
    with old r(1) have "user_id s = uid" by simp
    with a that have "s \<in> set (active_sessions d2 uid)" by (simp add: active_sessions_def)
    then have "s = s2" using create_session_only_active [OF c2] by simp
    with \<open>s \<noteq> s2\<close> show False by simp
  qed
  have "find (\<lambda>s. session_token s = session_token s1 \<and> s_is_active s \<and> expires_at s > t3) (user_sessions d2) = None"
    using none1 by (auto simp: find_None_iff)
  then show "fst (validate_session d2 (Some (session_token s1)) t3) = None"
    unfolding validate_session_def by simp
  assume u: "get_user d uid = Some u" "is_active u" and rnd: "r2 \<noteq> []" and t: "t3 < t2 + session_lifetime"
  have "find (\<lambda>s. session_token s = session_token s2 \<and> s_is_active s \<and> expires_at s > t3) (map ?f2 (user_sessions d1)) = None"
  proof -
    have "session_token r \<noteq> session_token s2" if "r \<in> set (user_sessions d1)" for r
      using that r2(4) tok2 by force
    then have "\<not> (session_token y = session_token s2 \<and> s_is_active y \<and> expires_at y > t3)"
      if "y \<in> set (map ?f2 (user_sessions d1))" for y
      using that by (auto split: if_splits)
    then show ?thesis unfolding find_None_iff by blast
  qed
  moreover have "session_token s2 = session_token s2 \<and> s_is_active s2 \<and> expires_at s2 > t3"
    using r2(3) t by simp
  ultimately have f: "find (\<lambda>s. session_token s = session_token s2 \<and> s_is_active s \<and> expires_at s > t3) (user_sessions d2) = Some s2"
    unfolding r2(1) find_append by simp
  have "get_user d2 uid = Some u" using u(1) r1(2) r2(2) by (simp add: get_user_def)
  moreover have "user_id s2 = uid" using r2(3) by simp
  moreover have "session_token s2 \<noteq> []" using tok2 token_urlsafe_nonempty [OF rnd] by simp
  ultimately show "fst (validate_session d2 (Some (session_token s2)) t3) = Some u"
    unfolding validate_session_def using f u(2) by simp
qed


lemma validate_session_found:
  assumes "tokens_distinct d" "tok \<noteq> []" "s \<in> set (user_sessions d)" "session_token s = tok"
  shows "fst (validate_session d (Some tok) now) =
           (if s_is_active s \<and> now < expires_at s
            then (case get_user d (user_id s) of None \<Rightarrow> None
                  | Some u \<Rightarrow> if is_active u then Some u else None)
            else None)"
proof (cases "s_is_active s \<and> now < expires_at s")
  case True
  have "find (\<lambda>r. session_token r = tok \<and> s_is_active r \<and> expires_at r > now) (user_sessions d) = Some s"
    using assms True by (intro find_unique) (auto dest: tokens_distinct_eq)
  then show ?thesis using True assms(2)
    unfolding validate_session_def by (simp split: option.splits)
next
  case False
  have "find (\<lambda>r. session_token r = tok \<and> s_is_active r \<and> expires_at r > now) (user_sessions d) = None"
    unfolding find_None_iff using assms False by (auto dest: tokens_distinct_eq)
  then show ?thesis using False assms(2)
    unfolding validate_session_def by auto
qed

lemma validate_session_SomeD:
  assumes "fst (validate_session d tok_opt now) = Some u"
  shows "\<exists>tok s. tok_opt = Some tok \<and> tok \<noteq> [] \<and> s \<in> set (user_sessions d) \<and> session_token s = tok \<and>
           s_is_active s \<and> now < expires_at s \<and> get_user d (user_id s) = Some u \<and> is_active u"
  using assms unfolding validate_session_def
  by (auto split: option.splits if_splits dest!: find_SomeD)

lemma validate_session_no_match:
  assumes "\<forall>s\<in>set (user_sessions d). session_token s \<noteq> tok"
  shows "fst (validate_session d (Some tok) now) = None"
proof -
  have "find (\<lambda>r. session_token r = tok \<and> s_is_active r \<and> expires_at r > now) (user_sessions d) = None"
    unfolding find_None_iff using assms by auto
  then show ?thesis unfolding validate_session_def by simp
qed

lemma create_session_collision:
  assumes "token_urlsafe rnd \<in> session_token ` set (user_sessions d)"
  shows "create_session d uid rnd now created = (Inl IntegrityError, d)"
  using assms unfolding create_session_def Let_def by simp

lemma create_session_success:
  assumes "token_urlsafe rnd \<notin> session_token ` set (user_sessions d)"
  shows "\<exists>s d'. create_session d uid rnd now created = (Inr s, d')"
  using assms unfolding create_session_def Let_def by simp

lemma deactivate_by_key:
  assumes "distinct (map s_id rows)"
  shows "map (\<lambda>r. if s_id r \<in> s_id ` set (filter (\<lambda>s. user_id s = uid \<and> s_is_active s) rows)
                   then r\<lparr>s_is_active := False\<rparr> else r) rows
         = map (\<lambda>r. if user_id r = uid then r\<lparr>s_is_active := False\<rparr> else r) rows"
proof (rule map_cong [OF refl])
  fix r assume r: "r \<in> set rows"
  from assms have inj: "inj_on s_id (set rows)" by (simp add: distinct_map)
  have k: "s_id r \<in> s_id ` set (filter (\<lambda>s. user_id s = uid \<and> s_is_active s) rows)
        \<longleftrightarrow> user_id r = uid \<and> s_is_active r"
  proof
    assume "s_id r \<in> s_id ` set (filter (\<lambda>s. user_id s = uid \<and> s_is_active s) rows)"
    then obtain r' where r': "r' \<in> set rows" "user_id r' = uid" "s_is_active r'" "s_id r = s_id r'"
      by auto
    from inj r r'(1,4) have "r = r'" by (auto dest: inj_onD)
    with r' show "user_id r = uid \<and> s_is_active r" by simp
  next
    assume "user_id r = uid \<and> s_is_active r"
    with r show "s_id r \<in> s_id ` set (filter (\<lambda>s. user_id s = uid \<and> s_is_active s) rows)"
      by auto
  qed
  have off: "r\<lparr>s_is_active := False\<rparr> = r" if "\<not> s_is_active r"
    using that by simp
  show "(if s_id r \<in> s_id ` set (filter (\<lambda>s. user_id s = uid \<and> s_is_active s) rows)
         then r\<lparr>s_is_active := False\<rparr> else r)
        = (if user_id r = uid then r\<lparr>s_is_active := False\<rparr> else r)"
    unfolding k using off by auto
qed

lemma create_session_frame:
  assumes "create_session d uid rnd now created = (Inr s, d')"
    "distinct (map s_id (user_sessions d))"
  shows "user_sessions d' =
           map (\<lambda>r. if user_id r = uid then r\<lparr>s_is_active := False\<rparr> else r) (user_sessions d) @ [s]"
  using create_session_rows(1) [OF assms(1)] deactivate_by_key [OF assms(2), of uid]
  by (simp add: active_sessions_def)

lemma create_session_tokens:
  assumes "create_session d uid rnd now created = (Inr s, d')"
  shows "session_token ` set (user_sessions d') = insert (token_urlsafe rnd) (session_token ` set (user_sessions d))"
proof -
  note r = create_session_rows [OF assms]
  have "map session_token (user_sessions d') = map session_token (user_sessions d) @ [token_urlsafe rnd]"
    unfolding r(1) using r(3) by (simp add: comp_def)
  then have "set (map session_token (user_sessions d')) = set (map session_token (user_sessions d) @ [token_urlsafe rnd])"
    by simp
  then show ?thesis by simp
qed

lemma create_session_twice_fresh:
  assumes f1: "token_urlsafe r1 \<notin> session_token ` set (user_sessions d)"
    and f2: "token_urlsafe r2 \<notin> session_token ` set (user_sessions d)"
    and ne: "token_urlsafe r1 \<noteq> token_urlsafe r2"
    and u: "get_user d uid = Some u" "is_active u" and r2: "r2 \<noteq> []"
    and t: "t3 < t2 + session_lifetime"
  shows "\<exists>s1 d1 s2 d2. create_session d uid r1 t1 c1 = (Inr s1, d1) \<and>
           create_session d1 uid r2 t2 c2 = (Inr s2, d2) \<and>
           session_token s1 \<noteq> session_token s2 \<and>
           fst (validate_session d2 (Some (session_token s1)) t3) = None \<and>
           fst (validate_session d2 (Some (session_token s2)) t3) = Some u"
proof -
  from create_session_success [OF f1] obtain s1 d1
    where c1: "create_session d uid r1 t1 c1 = (Inr s1, d1)" by blast
  have "token_urlsafe r2 \<notin> session_token ` set (user_sessions d1)"
    unfolding create_session_tokens [OF c1] using f2 ne by simp
  from create_session_success [OF this] obtain s2 d2
    where c2: "create_session d1 uid r2 t2 c2 = (Inr s2, d2)" by blast
  from create_session_twice(1) [OF c1 c2] create_session_twice(2) [OF c1 c2, of t3]
    create_session_twice(3) [OF c1 c2 u r2 t] c1 c2
  show ?thesis by blast
qed

lemma fold_max_ge:
  "m \<le> fold (\<lambda>pk m. case pk of None \<Rightarrow> m | Some i \<Rightarrow> max i m) pks (m::int) \<and>
   (Some i \<in> set pks \<longrightarrow> i \<le> fold (\<lambda>pk m. case pk of None \<Rightarrow> m | Some i \<Rightarrow> max i m) pks m)"
proof (induction pks arbitrary: m)
  case Nil
  then show ?case by simp
next
  case (Cons pk pks)
  let ?m' = "case pk of None \<Rightarrow> m | Some i \<Rightarrow> max i m"
  have a: "m \<le> ?m'" by (simp split: option.splits)
  from Cons.IH [of ?m'] a show ?case by (auto split: option.splits)
qed

lemma next_id_fresh: "Some (next_id pks) \<notin> set pks"
proof
  assume "Some (next_id pks) \<in> set pks"
  with fold_max_ge [of 0 pks "next_id pks"] show False by (simp add: next_id_def)
qed

lemma ids_update_session:
  "map s_id (update_session pk (\<lambda>r. r\<lparr>s_is_active := False\<rparr>) rows) = map s_id rows"
  by (simp add: update_session_def comp_def)

lemma ids_distinct_create_session:
  assumes "distinct (map s_id (user_sessions d))"
  shows "distinct (map s_id (user_sessions (snd (create_session d uid rnd now created))))"
proof (cases "create_session d uid rnd now created")
  case (Pair res d')
  show ?thesis
  proof (cases res)
    case (Inl e)
    with Pair have "d' = d" by (simp add: create_session_error)
    with Pair assms show ?thesis by simp
  next
    case (Inr s)
    note r = create_session_rows [OF Pair [unfolded Inr]]
    have "map s_id (user_sessions d') = map s_id (user_sessions d) @ [Some (next_id (map s_id (user_sessions d)))]"
      unfolding r(1) using r(3) by (simp add: comp_def)
    then show ?thesis using assms next_id_fresh [of "map s_id (user_sessions d)"] Pair by simp
  qed
qed

lemma reachable_session_ids_distinct: "reachable D d \<Longrightarrow> distinct (map s_id (user_sessions d))"
proof (induction rule: reachable.induct)
  case r_init
  then show ?case by (simp add: empty_db_def)
next
  case (r_create_user d user_data rnd created updated)
  then show ?case by (simp add: create_user_sessions)
next
  case (r_authenticate d login_data now)
  then show ?case by (simp add: authenticate_user_sessions)
next
  case (r_create_session d uid rnd now created)
  from r_create_session.IH show ?case by (rule ids_distinct_create_session)
next
  case (r_validate d tok now)
  then show ?case by (simp add: validate_session_snd)
next
  case (r_logout d tok)
  then show ?case using logout_user_sessions [of d tok] by (auto simp: ids_update_session)
qed

section \<open>The concrete store, evaluated\<close>

lemma demo_salt_hex: "token_hex demo_salt = lit ''99510f10b3abce217675ffa524b98e33''"
  by (simp add: token_hex_def demo_salt_def hex_digit_def lit_def)

lemma demo_hash:
  "hash_password toy_digest demo_salt (lit ''demo123'')
   = Inr (lit ''99510f10b3abce217675ffa524b98e33:27'')"
proof -
  have "hexlify (toy_digest (lit ''demo123'' @ lit ''99510f10b3abce217675ffa524b98e33''))
        = lit ''27''"
    by (simp add: toy_digest_def hex_digit_def lit_def)
  moreover have "encodable (lit ''demo123'')" by (rule encodable_lit)
  ultimately show ?thesis
    unfolding hash_password_eq demo_salt_hex by (simp add: lit_def)
qed

lemma demo_db_created:
  "create_user toy_digest empty_db demo_create demo_salt 500 501 = (Inr (Some demo_user), demo_db)"
  by (simp add: create_user_def empty_db_def demo_create_def demo_user_def demo_db_def
      demo_hash next_id_def Let_def)

lemma demo_db_reachable: "reachable toy_digest demo_db"
  using r_create_user [OF r_init, of toy_digest demo_create demo_salt 500 501]
  by (simp add: demo_db_created)

lemma token_rnd1: "token_urlsafe demo_rnd1 = demo_token1"
  by (simp add: token_urlsafe_def demo_rnd1_def rstrip_chr_def b64_char_def demo_token1_def
      lit_def code_def)

lemma token_rnd2: "token_urlsafe demo_rnd2 = demo_token2"
  by (simp add: token_urlsafe_def demo_rnd2_def rstrip_chr_def b64_char_def demo_token2_def
      lit_def code_def)

lemma demo_tokens_differ:
  "demo_token1 \<noteq> demo_token2" "demo_token2 \<noteq> demo_token1" "demo_token1 \<noteq> []"
  "demo_token2 \<noteq> []"
  by (simp_all add: demo_token1_def demo_token2_def lit_def code_def)

lemma demo_login1: "create_session demo_db 1 demo_rnd1 1000 1003 = (Inr demo_session1, demo_db1)"
  by (simp add: create_session_def Let_def token_rnd1 demo_db_def demo_db1_def demo_session1_def
      session_lifetime_def next_id_def)

lemma demo_login2: "create_session demo_db1 1 demo_rnd2 2000 2004 = (Inr demo_session2, demo_db2)"
  by (simp add: create_session_def Let_def token_rnd2 demo_db1_def demo_db2_def demo_session1_def
      demo_session2_def session_lifetime_def next_id_def update_session_def demo_tokens_differ)

lemma demo_tokens_distinct: "tokens_distinct demo_db2"
  by (simp add: tokens_distinct_def demo_db2_def demo_session1_def demo_session2_def
      demo_tokens_differ)

section \<open>Claims about password hashing\<close>

text \<open>
  C5, as stated: for every password \<open>p\<close>, \<open>verify(p, hash(p))\<close> is true. For the password
  that consists of the lone surrogate \<open>U+D800\<close>, \<open>hash\<close> returns no stored form: encoding
  the salted password raises \<open>UnicodeEncodeError\<close>, which \<open>hash_password\<close> does not catch.
\<close>

theorem hash_password_surrogate_counterexample:
  "\<not> encodable [55296] \<and>
   hash_password toy_digest demo_salt [55296] = Inl UnicodeEncodeError \<and>
   (\<forall>h. hash_password toy_digest demo_salt [55296] \<noteq> Inr h)"
  by (simp add: hash_password_eq encodable_def is_surrogate_def)

text \<open>
  C5, amended: \<open>hash\<close> returns a stored form exactly for the passwords that UTF-8 can
  encode (no lone surrogate) and raises \<open>UnicodeEncodeError\<close> for the others. For every
  password \<open>p\<close> that can be encoded, \<open>verify(p, hash(p))\<close> is true. For every pair of
  distinct passwords \<open>p\<close> and \<open>q\<close>, \<open>q\<close> encodable, \<open>verify(p, hash(q))\<close> is false;
  here the digest is taken to be free of collisions on the two salted passwords, and
  in general \<open>verify(p, hash(q))\<close> of two encodable passwords is true exactly when the
  digests of the two salted passwords are equal. Two calls of \<open>hash\<close> with the same
  password give different stored forms, as each call draws a fresh salt: the random
  bytes of the two calls differ.
\<close>

theorem hash_then_verify:
  "(encodable p \<longrightarrow>
      (\<exists>h. hash_password D rnd p = Inr h \<and> verify_password D p h = Inr (True, []))) \<and>
   (\<not> encodable p \<longrightarrow> hash_password D rnd p = Inl UnicodeEncodeError) \<and>
   (encodable q \<and> p \<noteq> q \<and> inj_on D {p @ token_hex rnd, q @ token_hex rnd} \<longrightarrow>
      (\<exists>h l. hash_password D rnd q = Inr h \<and> verify_password D p h = Inr (False, l))) \<and>
   (encodable p \<and> encodable q \<longrightarrow>
      (\<exists>h. hash_password D rnd q = Inr h \<and>
           verify_password D p h = Inr (D (p @ token_hex rnd) = D (q @ token_hex rnd), []))) \<and>
   (encodable p \<and> rnd \<noteq> rnd' \<longrightarrow>
      (\<exists>h h'. hash_password D rnd p = Inr h \<and> hash_password D rnd' p = Inr h' \<and> h \<noteq> h'))"
proof (intro conjI impI)
  assume e: "encodable p"
  then obtain h where h: "hash_password D rnd p = Inr h" by (simp add: hash_password_eq)
  from verify_hash [OF h, of p] e h
  show "\<exists>h. hash_password D rnd p = Inr h \<and> verify_password D p h = Inr (True, [])" by simp
next
  assume "\<not> encodable p"
  then show "hash_password D rnd p = Inl UnicodeEncodeError" by (simp add: hash_password_eq)
next
  assume a: "encodable q \<and> p \<noteq> q \<and> inj_on D {p @ token_hex rnd, q @ token_hex rnd}"
  then obtain h where h: "hash_password D rnd q = Inr h" by (auto simp: hash_password_eq)
  from a have "D (p @ token_hex rnd) \<noteq> D (q @ token_hex rnd)"
    by (auto dest: inj_onD)
  with verify_hash [OF h, of p] h
  show "\<exists>h l. hash_password D rnd q = Inr h \<and> verify_password D p h = Inr (False, l)"
    by (cases "encodable p") auto
next
  assume a: "encodable p \<and> encodable q"
  then obtain h where h: "hash_password D rnd q = Inr h" by (auto simp: hash_password_eq)
  from verify_hash [OF h, of p] a h
  show "\<exists>h. hash_password D rnd q = Inr h \<and>
           verify_password D p h = Inr (D (p @ token_hex rnd) = D (q @ token_hex rnd), [])"
    by simp
next
  assume a: "encodable p \<and> rnd \<noteq> rnd'"
  then obtain h h' where h: "hash_password D rnd p = Inr h" "hash_password D rnd' p = Inr h'"
    by (auto simp: hash_password_eq)
  with hash_salt_inj [of D rnd p h rnd' p] a have "h \<noteq> h'" by auto
  with h show "\<exists>h h'. hash_password D rnd p = Inr h \<and> hash_password D rnd' p = Inr h' \<and> h \<noteq> h'"
    by blast
qed

theorem hash_then_verify_witness:
  "encodable (lit ''secret1'') \<and> encodable (lit ''secret12'') \<and>
   lit ''secret1'' \<noteq> lit ''secret12'' \<and>
   inj_on toy_digest {lit ''secret1'' @ token_hex demo_salt, lit ''secret12'' @ token_hex demo_salt} \<and>
   demo_salt \<noteq> rev demo_salt \<and> \<not> encodable [55296] \<and>
   (\<exists>h. hash_password toy_digest demo_salt (lit ''secret1'') = Inr h \<and>
        verify_password toy_digest (lit ''secret1'') h = Inr (True, [])) \<and>
   hash_password toy_digest demo_salt [55296] = Inl UnicodeEncodeError \<and>
   (\<exists>h l. hash_password toy_digest demo_salt (lit ''secret12'') = Inr h \<and>
          verify_password toy_digest (lit ''secret1'') h = Inr (False, l)) \<and>
   (\<exists>h h'. hash_password toy_digest demo_salt (lit ''secret1'') = Inr h \<and>
           hash_password toy_digest (rev demo_salt) (lit ''secret1'') = Inr h' \<and> h \<noteq> h')"
proof -
  have e: "encodable (lit ''secret1'')" "encodable (lit ''secret12'')"
    by (rule encodable_lit)+
  have n: "lit ''secret1'' \<noteq> lit ''secret12''" by (simp add: lit_def)
  have i: "inj_on toy_digest
             {lit ''secret1'' @ token_hex demo_salt, lit ''secret12'' @ token_hex demo_salt}"
    by (simp add: toy_digest_def demo_salt_hex lit_def)
  have s: "demo_salt \<noteq> rev demo_salt" by (simp add: demo_salt_def)
  have u: "\<not> encodable [55296]" by (simp add: encodable_def is_surrogate_def)
  note t = hash_then_verify [where D = toy_digest and rnd = demo_salt and rnd' = "rev demo_salt"
      and p = "lit ''secret1''" and q = "lit ''secret12''"]
  note t' = hash_then_verify [where D = toy_digest and rnd = demo_salt and p = "[55296]"]
  from t e(1) have a: "\<exists>h. hash_password toy_digest demo_salt (lit ''secret1'') = Inr h \<and>
        verify_password toy_digest (lit ''secret1'') h = Inr (True, [])" by blast
  from t' u have b: "hash_password toy_digest demo_salt [55296] = Inl UnicodeEncodeError" by blast
  from t e(2) n i have c: "\<exists>h l. hash_password toy_digest demo_salt (lit ''secret12'') = Inr h \<and>
          verify_password toy_digest (lit ''secret1'') h = Inr (False, l)" by blast
  from t e(1) s have d: "\<exists>h h'. hash_password toy_digest demo_salt (lit ''secret1'') = Inr h \<and>
           hash_password toy_digest (rev demo_salt) (lit ''secret1'') = Inr h' \<and> h \<noteq> h'" by blast
  from e n i s u a b c d show ?thesis by (intro conjI)
qed

text \<open>
  C7: \<open>verify\<close> returns for every password and every stored form and never raises. When
  the stored form does not contain exactly one \<open>:\<close>, it returns false and logs the
  event; so it does for the stored form \<open>not-a-valid-format\<close>, and so it does when the
  password cannot be encoded.
\<close>

theorem verify_password_total:
  "(\<exists>b l. verify_password D p h = Inr (b, l)) \<and>
   (count_list h (code (CHR '':'')) \<noteq> 1 \<longrightarrow>
      verify_password D p h = Inr (False, [lit ''Invalid password hash format: '' @ h])) \<and>
   verify_password D p (lit ''not-a-valid-format'')
     = Inr (False, [lit ''Invalid password hash format: not-a-valid-format'']) \<and>
   (\<not> encodable p \<longrightarrow>
      verify_password D p h = Inr (False, [lit ''Invalid password hash format: '' @ h]))"
proof -
  have a: "\<exists>b l. verify_password D p h = Inr (b, l)" by (rule verify_returns)
  have b: "count_list h (code (CHR '':'')) \<noteq> 1 \<longrightarrow>
      verify_password D p h = Inr (False, [lit ''Invalid password hash format: '' @ h])"
    by (simp add: verify_malformed)
  have "count_list (lit ''not-a-valid-format'') (code (CHR '':'')) \<noteq> 1"
    by (simp add: lit_def code_eq_iff)
  from verify_malformed [OF this, of D p]
  have c: "verify_password D p (lit ''not-a-valid-format'')
     = Inr (False, [lit ''Invalid password hash format: not-a-valid-format''])"
    by (simp add: lit_def)
  have d: "\<not> encodable p \<longrightarrow>
      verify_password D p h = Inr (False, [lit ''Invalid password hash format: '' @ h])"
    unfolding verify_password_def verify_password_try_def sha256_hexdigest_def
    by (auto simp: unpack2_def is_ValueError_def encodable_append split: list.splits)
  from a b c d show ?thesis by (intro conjI)
qed

theorem verify_password_total_witness:
  "count_list (lit ''a:b:c'') (code (CHR '':'')) \<noteq> 1 \<and>
   verify_password toy_digest (lit ''secret1'') (lit ''a:b:c'')
     = Inr (False, [lit ''Invalid password hash format: a:b:c'']) \<and>
   \<not> encodable [55296] \<and>
   verify_password toy_digest [55296] (lit ''99510f10b3abce217675ffa524b98e33:27'')
     = Inr (False, [lit ''Invalid password hash format: 99510f10b3abce217675ffa524b98e33:27''])"
proof -
  have c: "count_list (lit ''a:b:c'') (code (CHR '':'')) \<noteq> 1"
    by (simp add: lit_def code_eq_iff)
  have u: "\<not> encodable [55296]" by (simp add: encodable_def is_surrogate_def)
  from verify_password_total [of toy_digest "lit ''secret1''" "lit ''a:b:c''"] c
  have a: "verify_password toy_digest (lit ''secret1'') (lit ''a:b:c'')
     = Inr (False, [lit ''Invalid password hash format: a:b:c''])"
    by (simp add: lit_def)
  from verify_password_total [of toy_digest "[55296]" "lit ''99510f10b3abce217675ffa524b98e33:27''"] u
  have b: "verify_password toy_digest [55296] (lit ''99510f10b3abce217675ffa524b98e33:27'')
     = Inr (False, [lit ''Invalid password hash format: 99510f10b3abce217675ffa524b98e33:27''])"
    by (simp add: lit_def)
  from c a u b show ?thesis by (intro conjI)
qed

text \<open>
  C8: \<open>validate_session\<close> is read-only. For every token, every store and every clock
  reading, the store after the call is the store before it: no expiry is extended and
  no flag is changed.
\<close>

theorem validate_session_read_only:
  "snd (validate_session d tok now) = d"
  by (rule validate_session_snd)

section \<open>Claims about sessions\<close>

text \<open>
  C1: a user has at most one active session at any instant. The invariant holds in
  every store that the operations of the service build from the empty one, and
  \<open>create_session\<close>, \<open>validate_session\<close> and \<open>logout_user\<close> each preserve it.
  \<open>create_session\<close> is refused, with the store unchanged, only when its token is
  already stored. Otherwise it succeeds: it deactivates the active sessions of the user
  and then inserts the new session, active, for that user, with the new token and an
  expiry 24 hours after the call; the new session is then the only active session of
  the user, and where the primary keys of the sessions are distinct, as in every store
  the service builds, the sessions of other users are as they were. Two calls of
  \<open>create_session\<close> for the same user with two fresh, different tokens both succeed;
  after them the first token validates to \<open>None\<close> and the second token validates to
  the user (an existing, active user, a token from at least one random byte, and a
  validation before the expiry of the second session).
\<close>

theorem one_active_session_per_user:
  "(reachable D d \<longrightarrow> single_active d \<and> distinct (map s_id (user_sessions d))) \<and>
   (single_active d \<longrightarrow>
      single_active (snd (create_session d uid rnd now created)) \<and>
      single_active (snd (validate_session d tok now)) \<and>
      single_active (snd (logout_user d tok))) \<and>
   (token_urlsafe rnd \<in> session_token ` set (user_sessions d) \<longrightarrow>
      create_session d uid rnd now created = (Inl IntegrityError, d)) \<and>
   (token_urlsafe rnd \<notin> session_token ` set (user_sessions d) \<longrightarrow>
      (\<exists>s d'. create_session d uid rnd now created = (Inr s, d') \<and>
          user_id s = uid \<and> session_token s = token_urlsafe rnd \<and>
          expires_at s = now + session_lifetime \<and> s_is_active s \<and>
          users d' = users d \<and> active_sessions d' uid = [s] \<and>
          (distinct (map s_id (user_sessions d)) \<longrightarrow>
             user_sessions d' =
               map (\<lambda>r. if user_id r = uid then r\<lparr>s_is_active := False\<rparr> else r)
                 (user_sessions d) @ [s]))) \<and>
   (token_urlsafe ra \<notin> session_token ` set (user_sessions d) \<and>
    token_urlsafe rb \<notin> session_token ` set (user_sessions d) \<and>
    token_urlsafe ra \<noteq> token_urlsafe rb \<and>
    get_user d uid = Some u \<and> is_active u \<and> rb \<noteq> [] \<and> tc < tb + session_lifetime \<longrightarrow>
      (\<exists>sa da sb db.
          create_session d uid ra ta ca = (Inr sa, da) \<and>
          create_session da uid rb tb cb = (Inr sb, db) \<and>
          session_token sa \<noteq> session_token sb \<and>
          fst (validate_session db (Some (session_token sa)) tc) = None \<and>
          fst (validate_session db (Some (session_token sb)) tc) = Some u))"
proof -
  have a: "reachable D d \<longrightarrow> single_active d \<and> distinct (map s_id (user_sessions d))"
    by (simp add: reachable_single_active reachable_session_ids_distinct)
  have b: "single_active d \<longrightarrow>
      single_active (snd (create_session d uid rnd now created)) \<and>
      single_active (snd (validate_session d tok now)) \<and>
      single_active (snd (logout_user d tok))"
    by (simp add: single_active_create_session single_active_logout_user validate_session_snd)
  have c: "token_urlsafe rnd \<in> session_token ` set (user_sessions d) \<longrightarrow>
      create_session d uid rnd now created = (Inl IntegrityError, d)"
    using create_session_collision by blast
  have e: "token_urlsafe rnd \<notin> session_token ` set (user_sessions d) \<longrightarrow>
      (\<exists>s d'. create_session d uid rnd now created = (Inr s, d') \<and>
          user_id s = uid \<and> session_token s = token_urlsafe rnd \<and>
          expires_at s = now + session_lifetime \<and> s_is_active s \<and>
          users d' = users d \<and> active_sessions d' uid = [s] \<and>
          (distinct (map s_id (user_sessions d)) \<longrightarrow>
             user_sessions d' =
               map (\<lambda>r. if user_id r = uid then r\<lparr>s_is_active := False\<rparr> else r)
                 (user_sessions d) @ [s]))"
  proof
    assume "token_urlsafe rnd \<notin> session_token ` set (user_sessions d)"
    from create_session_success [OF this] obtain s d'
      where cs: "create_session d uid rnd now created = (Inr s, d')" by blast
    note r = create_session_rows [OF cs]
    have 1: "user_id s = uid" "session_token s = token_urlsafe rnd"
      "expires_at s = now + session_lifetime" "s_is_active s"
      using r(3) by simp_all
    have 2: "users d' = users d" by (rule r(2))
    have 3: "active_sessions d' uid = [s]" by (rule create_session_only_active [OF cs])
    have 4: "distinct (map s_id (user_sessions d)) \<longrightarrow>
             user_sessions d' =
               map (\<lambda>r. if user_id r = uid then r\<lparr>s_is_active := False\<rparr> else r)
                 (user_sessions d) @ [s]"
      using create_session_frame [OF cs] by blast
    from cs 1 2 3 4 show "\<exists>s d'. create_session d uid rnd now created = (Inr s, d') \<and>
          user_id s = uid \<and> session_token s = token_urlsafe rnd \<and>
          expires_at s = now + session_lifetime \<and> s_is_active s \<and>
          users d' = users d \<and> active_sessions d' uid = [s] \<and>
          (distinct (map s_id (user_sessions d)) \<longrightarrow>
             user_sessions d' =
               map (\<lambda>r. if user_id r = uid then r\<lparr>s_is_active := False\<rparr> else r)
                 (user_sessions d) @ [s])"
      by blast
  qed
  have f: "token_urlsafe ra \<notin> session_token ` set (user_sessions d) \<and>
    token_urlsafe rb \<notin> session_token ` set (user_sessions d) \<and>
    token_urlsafe ra \<noteq> token_urlsafe rb \<and>
    get_user d uid = Some u \<and> is_active u \<and> rb \<noteq> [] \<and> tc < tb + session_lifetime \<longrightarrow>
      (\<exists>sa da sb db.
          create_session d uid ra ta ca = (Inr sa, da) \<and>
          create_session da uid rb tb cb = (Inr sb, db) \<and>
          session_token sa \<noteq> session_token sb \<and>
          fst (validate_session db (Some (session_token sa)) tc) = None \<and>
          fst (validate_session db (Some (session_token sb)) tc) = Some u)"
    using create_session_twice_fresh [of ra d rb uid u tc tb ta ca cb] by blast
  from a b c e f show ?thesis by (intro conjI)
qed

theorem one_active_session_per_user_witness:
  "reachable toy_digest demo_db \<and> single_active demo_db \<and>
   distinct (map s_id (user_sessions demo_db)) \<and>
   token_urlsafe demo_rnd1 \<notin> session_token ` set (user_sessions demo_db) \<and>
   token_urlsafe demo_rnd2 \<notin> session_token ` set (user_sessions demo_db) \<and>
   token_urlsafe demo_rnd1 \<noteq> token_urlsafe demo_rnd2 \<and>
   token_urlsafe demo_rnd1 \<in> session_token ` set (user_sessions demo_db1) \<and>
   get_user demo_db 1 = Some demo_user \<and> is_active demo_user \<and> demo_rnd2 \<noteq> [] \<and>
   3000 < 2000 + session_lifetime \<and>
   create_session demo_db 1 demo_rnd1 1000 1003 = (Inr demo_session1, demo_db1) \<and>
   create_session demo_db1 1 demo_rnd2 2000 2004 = (Inr demo_session2, demo_db2) \<and>
   create_session demo_db1 1 demo_rnd1 2000 2004 = (Inl IntegrityError, demo_db1) \<and>
   single_active (snd (create_session demo_db 1 demo_rnd1 1000 1003)) \<and>
   single_active (snd (validate_session demo_db None 1000)) \<and>
   single_active (snd (logout_user demo_db None)) \<and>
   (\<exists>sa da sb db.
      create_session demo_db 1 demo_rnd1 1000 1003 = (Inr sa, da) \<and>
      create_session da 1 demo_rnd2 2000 2004 = (Inr sb, db) \<and>
      session_token sa \<noteq> session_token sb \<and>
      fst (validate_session db (Some (session_token sa)) 3000) = None \<and>
      fst (validate_session db (Some (session_token sb)) 3000) = Some demo_user)"
proof -
  have r: "reachable toy_digest demo_db" by (rule demo_db_reachable)
  have h: "token_urlsafe demo_rnd1 \<notin> session_token ` set (user_sessions demo_db)"
    "token_urlsafe demo_rnd2 \<notin> session_token ` set (user_sessions demo_db)"
    "token_urlsafe demo_rnd1 \<noteq> token_urlsafe demo_rnd2"
    "get_user demo_db 1 = Some demo_user" "is_active demo_user"
    by (simp_all add: token_rnd1 token_rnd2 demo_tokens_differ get_user_def demo_db_def
        demo_user_def)
  have h': "demo_rnd2 \<noteq> []" "3000 < 2000 + session_lifetime"
    by (simp_all add: demo_rnd2_def session_lifetime_def)
  have k: "token_urlsafe demo_rnd1 \<in> session_token ` set (user_sessions demo_db1)"
    by (simp add: token_rnd1 demo_db1_def demo_session1_def)
  note t = one_active_session_per_user [where D = toy_digest and d = demo_db and uid = 1
      and rnd = demo_rnd1 and now = 1000 and created = 1003 and tok = None
      and ra = demo_rnd1 and ta = 1000 and ca = 1003 and rb = demo_rnd2 and tb = 2000
      and cb = 2004 and u = demo_user and tc = 3000]
  note t' = one_active_session_per_user [where D = toy_digest and d = demo_db1 and uid = 1
      and rnd = demo_rnd1 and now = 2000 and created = 2004]
  from t r have a: "single_active demo_db" "distinct (map s_id (user_sessions demo_db))"
    by blast+
  from t a(1) have b: "single_active (snd (create_session demo_db 1 demo_rnd1 1000 1003))"
    "single_active (snd (validate_session demo_db None 1000))"
    "single_active (snd (logout_user demo_db None))"
    by blast+
  from t' k have c: "create_session demo_db1 1 demo_rnd1 2000 2004 = (Inl IntegrityError, demo_db1)"
    by blast
  from t h h' have e: "\<exists>sa da sb db.
      create_session demo_db 1 demo_rnd1 1000 1003 = (Inr sa, da) \<and>
      create_session da 1 demo_rnd2 2000 2004 = (Inr sb, db) \<and>
      session_token sa \<noteq> session_token sb \<and>
      fst (validate_session db (Some (session_token sa)) 3000) = None \<and>
      fst (validate_session db (Some (session_token sb)) 3000) = Some demo_user"
    by blast
  from r a h(1-3) k h(4-5) h' demo_login1 demo_login2 c b e show ?thesis by (intro conjI)
qed

text \<open>
  C2: \<open>validate_session\<close> returns \<open>None\<close> for a null token and for the empty token, and
  for a token that no stored session carries. For a non-empty token, in a store whose
  session tokens are unique, it returns a user exactly when some stored session has
  that token, is active and expires strictly after the current time, and the user with
  the session's \<open>user_id\<close> exists and is active; the user returned is that owner.
\<close>

theorem validate_session_result:
  "tokens_distinct d \<Longrightarrow>
   fst (validate_session d None now) = None \<and>
   fst (validate_session d (Some []) now) = None \<and>
   ((\<forall>s\<in>set (user_sessions d). session_token s \<noteq> tok) \<longrightarrow>
      fst (validate_session d (Some tok) now) = None) \<and>
   (tok \<noteq> [] \<longrightarrow>
      (fst (validate_session d (Some tok) now) = Some u) =
      (\<exists>s\<in>set (user_sessions d). session_token s = tok \<and> s_is_active s \<and> now < expires_at s \<and>
          get_user d (user_id s) = Some u \<and> is_active u))"
proof -
  assume td: "tokens_distinct d"
  have a: "fst (validate_session d None now) = None" "fst (validate_session d (Some []) now) = None"
    by (simp_all add: validate_session_def)
  have b: "(\<forall>s\<in>set (user_sessions d). session_token s \<noteq> tok) \<longrightarrow>
      fst (validate_session d (Some tok) now) = None"
    using validate_session_no_match by blast
  have c: "(fst (validate_session d (Some tok) now) = Some u) =
      (\<exists>s\<in>set (user_sessions d). session_token s = tok \<and> s_is_active s \<and> now < expires_at s \<and>
          get_user d (user_id s) = Some u \<and> is_active u)" if "tok \<noteq> []"
  proof
    assume "fst (validate_session d (Some tok) now) = Some u"
    from validate_session_SomeD [OF this]
    show "\<exists>s\<in>set (user_sessions d). session_token s = tok \<and> s_is_active s \<and> now < expires_at s \<and>
          get_user d (user_id s) = Some u \<and> is_active u" by auto
  next
    assume "\<exists>s\<in>set (user_sessions d). session_token s = tok \<and> s_is_active s \<and> now < expires_at s \<and>
          get_user d (user_id s) = Some u \<and> is_active u"
    then obtain s where s: "s \<in> set (user_sessions d)" "session_token s = tok" "s_is_active s"
       "now < expires_at s" "get_user d (user_id s) = Some u" "is_active u" by blast
    show "fst (validate_session d (Some tok) now) = Some u"
      using validate_session_found [OF td that s(1,2), of now] s(3-6) by simp
  qed
  from a b c show ?thesis by blast
qed

theorem validate_session_result_witness:
  "tokens_distinct demo_db2 \<and>
   lit ''garbage-token'' \<notin> session_token ` set (user_sessions demo_db2) \<and>
   demo_token2 \<noteq> [] \<and>
   fst (validate_session demo_db2 None 3000) = None \<and>
   fst (validate_session demo_db2 (Some []) 3000) = None \<and>
   fst (validate_session demo_db2 (Some (lit ''garbage-token'')) 3000) = None \<and>
   fst (validate_session demo_db2 (Some demo_token2) 3000) = Some demo_user"
proof -
  have g: "\<forall>s\<in>set (user_sessions demo_db2). session_token s \<noteq> lit ''garbage-token''"
    by (simp add: demo_db2_def demo_session1_def demo_session2_def demo_token1_def
        demo_token2_def lit_def code_def)
  then have g': "lit ''garbage-token'' \<notin> session_token ` set (user_sessions demo_db2)"
    by auto
  have v: "\<exists>s\<in>set (user_sessions demo_db2).
      session_token s = demo_token2 \<and> s_is_active s \<and>
      3000 < expires_at s \<and> get_user demo_db2 (user_id s) = Some demo_user \<and> is_active demo_user"
    by (simp add: demo_db2_def demo_session1_def demo_session2_def get_user_def demo_user_def)
  note t = validate_session_result [OF demo_tokens_distinct, where now = 3000
      and tok = "lit ''garbage-token''" and u = demo_user]
  note t' = validate_session_result [OF demo_tokens_distinct, where now = 3000
      and tok = demo_token2 and u = demo_user]
  from t have a: "fst (validate_session demo_db2 None 3000) = None"
    "fst (validate_session demo_db2 (Some []) 3000) = None" by blast+
  from t g have b: "fst (validate_session demo_db2 (Some (lit ''garbage-token'')) 3000) = None"
    by blast
  from t' v demo_tokens_differ(4)
  have c: "fst (validate_session demo_db2 (Some demo_token2) 3000) = Some demo_user"
    by blast
  from demo_tokens_distinct g' demo_tokens_differ(4) a b c show ?thesis by (intro conjI)
qed







lemma find_list_all2:
  assumes "list_all2 R xs ys" "\<And>x y. R x y \<Longrightarrow> P x = P y"
  shows "rel_option R (find P xs) (find P ys)"
  using assms by (induction rule: list_all2_induct) auto

lemma flag_rel_fields:
  assumes "u'\<lparr>is_authenticated := is_authenticated u\<rparr> = u"
  shows "u_id u = u_id u'" "is_active u = is_active u'"
proof -
  from assms have "u_id (u'\<lparr>is_authenticated := is_authenticated u\<rparr>) = u_id u"
    by (rule arg_cong)
  then show "u_id u = u_id u'" by simp
  from assms have "is_active (u'\<lparr>is_authenticated := is_authenticated u\<rparr>) = is_active u"
    by (rule arg_cong)
  then show "is_active u = is_active u'" by simp
qed

lemma validate_session_flag_rel:
  assumes "differ_only_in_is_authenticated d d'"
  shows "rel_option (\<lambda>u u'. u'\<lparr>is_authenticated := is_authenticated u\<rparr> = u)
           (fst (validate_session d tok now)) (fst (validate_session d' tok now))"
proof -
  let ?R = "\<lambda>u u'. u'\<lparr>is_authenticated := is_authenticated u\<rparr> = u"
  from assms have ss: "user_sessions d' = user_sessions d" and us: "list_all2 ?R (users d) (users d')"
    by (simp_all add: differ_only_in_is_authenticated_def)
  have g: "rel_option ?R (get_user d pk) (get_user d' pk)" for pk
    unfolding get_user_def
  proof (rule find_list_all2 [OF us])
    fix x y assume "y\<lparr>is_authenticated := is_authenticated x\<rparr> = x"
    then have "u_id x = u_id y" by (rule flag_rel_fields(1))
    then show "(u_id x = Some pk) = (u_id y = Some pk)" by simp
  qed
  show ?thesis
  proof (cases tok)
    case None
    then show ?thesis by (simp add: validate_session_def)
  next
    case (Some t)
    show ?thesis
    proof (cases "t = []")
      case True
      with Some show ?thesis by (simp add: validate_session_def)
    next
      case ne: False
    show ?thesis
    proof (cases "find (\<lambda>s. session_token s = t \<and> s_is_active s \<and> expires_at s > now) (user_sessions d)")
      case None
      then show ?thesis using Some ss by (simp add: validate_session_def)
    next
      case found: (Some s)
      from g [of "user_id s"] show ?thesis
      proof (cases rule: option.rel_cases)
        case None
        then show ?thesis using found Some ss by (simp add: validate_session_def)
      next
        case (Some u u')
        have act: "is_active u = is_active u'" using Some(3) by (rule flag_rel_fields(2))
        have "fst (validate_session d tok now) = (if is_active u then Some u else None)"
          using found Some(1) \<open>tok = Some t\<close> ne by (simp add: validate_session_def)
        moreover have "fst (validate_session d' tok now) = (if is_active u then Some u' else None)"
          using found Some(2) \<open>tok = Some t\<close> ss act ne by (simp add: validate_session_def)
        ultimately show ?thesis using Some(3) by (cases "is_active u") simp_all
      qed
    qed
    qed
  qed
qed

text \<open>
  C10: the result of \<open>validate_session\<close> does not depend on the \<open>is_authenticated\<close> flag
  of the owning user. For two stores that differ only in \<open>is_authenticated\<close> flags and
  for every token, \<open>validate_session\<close> returns \<open>None\<close> in both or a user in both, and
  the two rows returned are the same user: they agree in every field, the flag itself
  apart, which each row carries as its store holds it. In particular, in a store with
  unique tokens, an active user whose \<open>is_authenticated\<close> is false and who owns an
  active, unexpired session is returned for that session's token.
\<close>

theorem validate_session_ignores_is_authenticated:
  "(differ_only_in_is_authenticated d d' \<longrightarrow>
      (fst (validate_session d tok now) = None) = (fst (validate_session d' tok now) = None) \<and>
      (\<forall>u u'. fst (validate_session d tok now) = Some u \<and>
               fst (validate_session d' tok now) = Some u' \<longrightarrow>
               u'\<lparr>is_authenticated := is_authenticated u\<rparr> = u)) \<and>
   (tokens_distinct d \<and> t \<noteq> [] \<and> s \<in> set (user_sessions d) \<and> session_token s = t \<and>
    s_is_active s \<and> now < expires_at s \<and> get_user d (user_id s) = Some v \<and> is_active v \<and>
    \<not> is_authenticated v \<longrightarrow> fst (validate_session d (Some t) now) = Some v)"
proof (intro conjI impI allI)
  assume a: "differ_only_in_is_authenticated d d'"
  note r = validate_session_flag_rel [OF a, of tok now]
  from r show "(fst (validate_session d tok now) = None) = (fst (validate_session d' tok now) = None)"
    by (cases rule: option.rel_cases) simp_all
  fix u u'
  assume "fst (validate_session d tok now) = Some u \<and> fst (validate_session d' tok now) = Some u'"
  with r show "u'\<lparr>is_authenticated := is_authenticated u\<rparr> = u" by simp
next
  assume "tokens_distinct d \<and> t \<noteq> [] \<and> s \<in> set (user_sessions d) \<and> session_token s = t \<and>
    s_is_active s \<and> now < expires_at s \<and> get_user d (user_id s) = Some v \<and> is_active v \<and>
    \<not> is_authenticated v"
  then show "fst (validate_session d (Some t) now) = Some v"
    using validate_session_found [of d t s now] by simp
qed

theorem validate_session_ignores_is_authenticated_witness:
  "differ_only_in_is_authenticated demo_db1
     (demo_db1\<lparr>users := [demo_user\<lparr>is_authenticated := True\<rparr>]\<rparr>) \<and>
   tokens_distinct demo_db1 \<and> demo_session1 \<in> set (user_sessions demo_db1) \<and>
   s_is_active demo_session1 \<and> 3000 < expires_at demo_session1 \<and>
   get_user demo_db1 (user_id demo_session1) = Some demo_user \<and> is_active demo_user \<and>
   \<not> is_authenticated demo_user \<and>
   fst (validate_session demo_db1 (Some (session_token demo_session1)) 3000) = Some demo_user \<and>
   (fst (validate_session demo_db1 (Some (session_token demo_session1)) 3000) = None) =
   (fst (validate_session (demo_db1\<lparr>users := [demo_user\<lparr>is_authenticated := True\<rparr>]\<rparr>)
          (Some (session_token demo_session1)) 3000) = None)"
proof -
  have h: "differ_only_in_is_authenticated demo_db1
     (demo_db1\<lparr>users := [demo_user\<lparr>is_authenticated := True\<rparr>]\<rparr>)"
    "tokens_distinct demo_db1" "demo_session1 \<in> set (user_sessions demo_db1)"
    "s_is_active demo_session1" "3000 < expires_at demo_session1"
    "get_user demo_db1 (user_id demo_session1) = Some demo_user" "is_active demo_user"
    "\<not> is_authenticated demo_user" "session_token demo_session1 \<noteq> []"
    by (simp_all add: differ_only_in_is_authenticated_def tokens_distinct_def get_user_def
        demo_db1_def demo_session1_def demo_user_def demo_tokens_differ)
  note t = validate_session_ignores_is_authenticated [where d = demo_db1
        and d' = "demo_db1\<lparr>users := [demo_user\<lparr>is_authenticated := True\<rparr>]\<rparr>"
        and tok = "Some (session_token demo_session1)" and now = 3000
        and t = "session_token demo_session1" and s = demo_session1 and v = demo_user]
  from t h(1) have e: "(fst (validate_session demo_db1 (Some (session_token demo_session1)) 3000) = None) =
   (fst (validate_session (demo_db1\<lparr>users := [demo_user\<lparr>is_authenticated := True\<rparr>]\<rparr>)
          (Some (session_token demo_session1)) 3000) = None)"
    by blast
  from t h(2-9) have f: "fst (validate_session demo_db1 (Some (session_token demo_session1)) 3000) = Some demo_user"
    by blast
  from h e f show ?thesis by blast
qed

section \<open>Claims about users\<close>

lemma authenticate_user_unknown:
  assumes "\<forall>u\<in>set (users d). username u \<noteq> ul_username ld"
  shows "authenticate_user D d ld now = (Inr None, d)"
proof -
  have "find (\<lambda>u. username u = ul_username ld) (users d) = None"
    unfolding find_None_iff using assms by blast
  then show ?thesis by (simp add: authenticate_user_def)
qed

lemma authenticate_user_inactive:
  assumes "find (\<lambda>x. username x = ul_username ld) (users d) = Some u" "\<not> is_active u"
  shows "authenticate_user D d ld now = (Inr None, d)"
  using assms by (simp add: authenticate_user_def)

lemma authenticate_user_wrong_password:
  assumes "find (\<lambda>x. username x = ul_username ld) (users d) = Some u"
    "verify_password D (ul_password ld) (password_hash u) = Inr (False, l)"
  shows "authenticate_user D d ld now = (Inr None, d)"
  using assms by (simp add: authenticate_user_def)

lemma authenticate_user_success:
  assumes "find (\<lambda>x. username x = ul_username ld) (users d) = Some u" "is_active u"
    "verify_password D (ul_password ld) (password_hash u) = Inr (True, l)"
  shows "authenticate_user D d ld now =
           (Inr (Some (u\<lparr>last_login := Some now, is_authenticated := True\<rparr>)),
            d\<lparr>users := update_user (u_id u)
                  (\<lambda>r. r\<lparr>last_login := Some now, is_authenticated := True\<rparr>) (users d)\<rparr>)"
  using assms by (simp add: authenticate_user_def Let_def)

lemma authenticate_user_no_error: "fst (authenticate_user D d ld now) \<noteq> Inl e"
proof (cases "find (\<lambda>u. username u = ul_username ld) (users d)")
  case None
  then show ?thesis by (simp add: authenticate_user_def)
next
  case (Some u)
  obtain b l where v: "verify_password D (ul_password ld) (password_hash u) = Inr (b, l)"
    using verify_returns by blast
  show ?thesis using Some v by (simp add: authenticate_user_def Let_def)
qed

lemma find_username_update:
  assumes "find (\<lambda>x. username x = n) rows = Some u" "\<And>r. username (f r) = username r"
  shows "find (\<lambda>x. username x = n) (update_user (u_id u) f rows) = Some (f u)"
proof -
  let ?g = "\<lambda>r. if u_id r = u_id u then f r else r"
  have "find (\<lambda>x. username x = n) (map ?g rows) = map_option ?g (find (\<lambda>x. username x = n) rows)"
    by (rule find_map_same) (simp add: assms(2))
  then show ?thesis using assms(1) by (simp add: update_user_def)
qed

lemma demo_password_hash:
  "password_hash demo_user = lit ''99510f10b3abce217675ffa524b98e33:27''"
  by (simp add: demo_user_def)

lemma demo_verify_right:
  "verify_password toy_digest (lit ''demo123'') (password_hash demo_user) = Inr (True, [])"
  unfolding demo_password_hash verify_hash [OF demo_hash]
  by (simp add: encodable_lit)

lemma demo_verify_wrong:
  "verify_password toy_digest (lit ''wrong'') (password_hash demo_user) = Inr (False, [])"
proof -
  have "toy_digest (lit ''wrong'' @ token_hex demo_salt)
        \<noteq> toy_digest (lit ''demo123'' @ token_hex demo_salt)"
    by (simp add: toy_digest_def demo_salt_hex lit_def)
  then show ?thesis
    unfolding demo_password_hash verify_hash [OF demo_hash]
    by (simp add: encodable_lit)
qed

text \<open>
  C3: \<open>authenticate_user\<close> fails with the one value \<open>None\<close>, and leaves the store
  unchanged, when no user has the given username, when the user found is not active,
  and when the password does not verify against the stored hash. When the user is
  active and the password verifies, it returns the user with \<open>last_login\<close> set to the
  current time and \<open>is_authenticated\<close> set; the store then holds that row under the
  username, keeps every row with another primary key, and keeps the sessions. The call
  never raises.
\<close>

theorem authenticate_user_outcome:
  "((\<forall>x\<in>set (users d). username x \<noteq> ul_username ld) \<longrightarrow>
      authenticate_user D d ld now = (Inr None, d)) \<and>
   (find (\<lambda>x. username x = ul_username ld) (users d) = Some u \<and> \<not> is_active u \<longrightarrow>
      authenticate_user D d ld now = (Inr None, d)) \<and>
   (find (\<lambda>x. username x = ul_username ld) (users d) = Some u \<and>
    verify_password D (ul_password ld) (password_hash u) = Inr (False, l) \<longrightarrow>
      authenticate_user D d ld now = (Inr None, d)) \<and>
   (find (\<lambda>x. username x = ul_username ld) (users d) = Some u \<and> is_active u \<and>
    verify_password D (ul_password ld) (password_hash u) = Inr (True, l) \<longrightarrow>
      fst (authenticate_user D d ld now)
        = Inr (Some (u\<lparr>last_login := Some now, is_authenticated := True\<rparr>)) \<and>
      find (\<lambda>x. username x = ul_username ld) (users (snd (authenticate_user D d ld now)))
        = Some (u\<lparr>last_login := Some now, is_authenticated := True\<rparr>) \<and>
      (\<forall>r\<in>set (users d). u_id r \<noteq> u_id u \<longrightarrow>
          r \<in> set (users (snd (authenticate_user D d ld now)))) \<and>
      user_sessions (snd (authenticate_user D d ld now)) = user_sessions d) \<and>
   (\<forall>e. fst (authenticate_user D d ld now) \<noteq> Inl e)"
proof -
  have a: "(\<forall>x\<in>set (users d). username x \<noteq> ul_username ld) \<longrightarrow>
      authenticate_user D d ld now = (Inr None, d)"
    using authenticate_user_unknown by blast
  have b: "find (\<lambda>x. username x = ul_username ld) (users d) = Some u \<and> \<not> is_active u \<longrightarrow>
      authenticate_user D d ld now = (Inr None, d)"
    using authenticate_user_inactive by blast
  have c: "find (\<lambda>x. username x = ul_username ld) (users d) = Some u \<and>
    verify_password D (ul_password ld) (password_hash u) = Inr (False, l) \<longrightarrow>
      authenticate_user D d ld now = (Inr None, d)"
    using authenticate_user_wrong_password by blast
  have e: "find (\<lambda>x. username x = ul_username ld) (users d) = Some u \<and> is_active u \<and>
    verify_password D (ul_password ld) (password_hash u) = Inr (True, l) \<longrightarrow>
      fst (authenticate_user D d ld now)
        = Inr (Some (u\<lparr>last_login := Some now, is_authenticated := True\<rparr>)) \<and>
      find (\<lambda>x. username x = ul_username ld) (users (snd (authenticate_user D d ld now)))
        = Some (u\<lparr>last_login := Some now, is_authenticated := True\<rparr>) \<and>
      (\<forall>r\<in>set (users d). u_id r \<noteq> u_id u \<longrightarrow>
          r \<in> set (users (snd (authenticate_user D d ld now)))) \<and>
      user_sessions (snd (authenticate_user D d ld now)) = user_sessions d"
  proof (intro impI, elim conjE)
    assume h: "find (\<lambda>x. username x = ul_username ld) (users d) = Some u" "is_active u"
      "verify_password D (ul_password ld) (password_hash u) = Inr (True, l)"
    note s = authenticate_user_success [OF h, of now]
    have 1: "fst (authenticate_user D d ld now)
        = Inr (Some (u\<lparr>last_login := Some now, is_authenticated := True\<rparr>))"
      by (simp add: s)
    have 2: "find (\<lambda>x. username x = ul_username ld) (users (snd (authenticate_user D d ld now)))
        = Some (u\<lparr>last_login := Some now, is_authenticated := True\<rparr>)"
      unfolding s using find_username_update [OF h(1),
          of "\<lambda>r. r\<lparr>last_login := Some now, is_authenticated := True\<rparr>"]
      by simp
    have 3: "\<forall>r\<in>set (users d). u_id r \<noteq> u_id u \<longrightarrow>
          r \<in> set (users (snd (authenticate_user D d ld now)))"
      unfolding s by (force simp: update_user_def)
    have 4: "user_sessions (snd (authenticate_user D d ld now)) = user_sessions d"
      by (simp add: s)
    from 1 2 3 4 show "fst (authenticate_user D d ld now)
        = Inr (Some (u\<lparr>last_login := Some now, is_authenticated := True\<rparr>)) \<and>
      find (\<lambda>x. username x = ul_username ld) (users (snd (authenticate_user D d ld now)))
        = Some (u\<lparr>last_login := Some now, is_authenticated := True\<rparr>) \<and>
      (\<forall>r\<in>set (users d). u_id r \<noteq> u_id u \<longrightarrow>
          r \<in> set (users (snd (authenticate_user D d ld now)))) \<and>
      user_sessions (snd (authenticate_user D d ld now)) = user_sessions d"
      by (intro conjI)
  qed
  have f: "\<forall>e. fst (authenticate_user D d ld now) \<noteq> Inl e"
    using authenticate_user_no_error by blast
  from a b c e f show ?thesis by (intro conjI)
qed

theorem authenticate_user_outcome_witness:
  "(lit ''nobody'') \<notin> username ` set (users demo_db) \<and>
   authenticate_user toy_digest demo_db \<lparr>ul_username = (lit ''nobody''), ul_password = (lit ''demo123'')\<rparr> 700
     = (Inr None, demo_db) \<and>
   find (\<lambda>x. username x = (lit ''demo'')) (users (demo_db\<lparr>users := [demo_user\<lparr>is_active := False\<rparr>]\<rparr>))
     = Some (demo_user\<lparr>is_active := False\<rparr>) \<and>
   authenticate_user toy_digest (demo_db\<lparr>users := [demo_user\<lparr>is_active := False\<rparr>]\<rparr>)
       \<lparr>ul_username = (lit ''demo''), ul_password = (lit ''demo123'')\<rparr> 700
     = (Inr None, demo_db\<lparr>users := [demo_user\<lparr>is_active := False\<rparr>]\<rparr>) \<and>
   find (\<lambda>x. username x = (lit ''demo'')) (users demo_db) = Some demo_user \<and> is_active demo_user \<and>
   verify_password toy_digest (lit ''wrong'') (password_hash demo_user) = Inr (False, []) \<and>
   authenticate_user toy_digest demo_db \<lparr>ul_username = (lit ''demo''), ul_password = (lit ''wrong'')\<rparr> 700
     = (Inr None, demo_db) \<and>
   verify_password toy_digest (lit ''demo123'') (password_hash demo_user) = Inr (True, []) \<and>
   fst (authenticate_user toy_digest demo_db \<lparr>ul_username = (lit ''demo''), ul_password = (lit ''demo123'')\<rparr> 700)
     = Inr (Some (demo_user\<lparr>last_login := Some 700, is_authenticated := True\<rparr>))"
proof -
  have h1: "\<forall>x\<in>set (users demo_db). username x \<noteq> (lit ''nobody'')"
    by (simp add: demo_db_def demo_user_def lit_eq_iff)
  have h2: "find (\<lambda>x. username x = (lit ''demo''))
              (users (demo_db\<lparr>users := [demo_user\<lparr>is_active := False\<rparr>]\<rparr>))
            = Some (demo_user\<lparr>is_active := False\<rparr>)"
    "\<not> is_active (demo_user\<lparr>is_active := False\<rparr>)"
    by (simp_all add: demo_db_def demo_user_def)
  have h3: "find (\<lambda>x. username x = (lit ''demo'')) (users demo_db) = Some demo_user" "is_active demo_user"
    by (simp_all add: demo_db_def demo_user_def)
  have a: "authenticate_user toy_digest demo_db
             \<lparr>ul_username = (lit ''nobody''), ul_password = (lit ''demo123'')\<rparr> 700 = (Inr None, demo_db)"
    using authenticate_user_outcome [where d = demo_db and D = toy_digest and now = 700
        and ld = "\<lparr>ul_username = (lit ''nobody''), ul_password = (lit ''demo123'')\<rparr>"] h1
    by simp
  have b: "authenticate_user toy_digest (demo_db\<lparr>users := [demo_user\<lparr>is_active := False\<rparr>]\<rparr>)
       \<lparr>ul_username = (lit ''demo''), ul_password = (lit ''demo123'')\<rparr> 700
     = (Inr None, demo_db\<lparr>users := [demo_user\<lparr>is_active := False\<rparr>]\<rparr>)"
    using authenticate_user_outcome [where d = "demo_db\<lparr>users := [demo_user\<lparr>is_active := False\<rparr>]\<rparr>"
        and D = toy_digest and now = 700 and u = "demo_user\<lparr>is_active := False\<rparr>"
        and ld = "\<lparr>ul_username = (lit ''demo''), ul_password = (lit ''demo123'')\<rparr>"] h2
    by simp
  have c: "authenticate_user toy_digest demo_db \<lparr>ul_username = (lit ''demo''), ul_password = (lit ''wrong'')\<rparr> 700
     = (Inr None, demo_db)"
    using authenticate_user_outcome [where d = demo_db and D = toy_digest and now = 700
        and u = demo_user and l = "[]"
        and ld = "\<lparr>ul_username = (lit ''demo''), ul_password = (lit ''wrong'')\<rparr>"] h3 demo_verify_wrong
    by simp
  have e: "fst (authenticate_user toy_digest demo_db
                  \<lparr>ul_username = (lit ''demo''), ul_password = (lit ''demo123'')\<rparr> 700)
     = Inr (Some (demo_user\<lparr>last_login := Some 700, is_authenticated := True\<rparr>))"
    using authenticate_user_outcome [where d = demo_db and D = toy_digest and now = 700
        and u = demo_user and l = "[]"
        and ld = "\<lparr>ul_username = (lit ''demo''), ul_password = (lit ''demo123'')\<rparr>"] h3 demo_verify_right
    by simp
  have h1': "(lit ''nobody'') \<notin> username ` set (users demo_db)"
    by (simp add: demo_db_def demo_user_def lit_eq_iff)
  from h1' h2(1) h3 demo_verify_wrong demo_verify_right a b c e show ?thesis by (intro conjI)
qed

text \<open>
  C9, as stated: \<open>create\<close> can never be reached with a password of fewer than 6
  characters. The schema checks the length when a \<open>UserCreate\<close> is constructed, not when
  its \<open>password\<close> is assigned afterwards, and \<open>create_user\<close> has no check of its own:
  handed the demo account's \<open>UserCreate\<close> with the password then set to \<open>abc\<close>, it
  stores the user.
\<close>

theorem create_user_short_password_counterexample:
  "length (uc_password (demo_create\<lparr>uc_password := lit ''abc''\<rparr>)) < 6 \<and>
   (\<exists>w. create_user toy_digest empty_db (demo_create\<lparr>uc_password := lit ''abc''\<rparr>)
          demo_salt 500 501
        = (Inr (Some w), empty_db\<lparr>users := [w]\<rparr>) \<and>
        username w = lit ''demo'' \<and>
        verify_password toy_digest (lit ''abc'') (password_hash w) = Inr (True, []))"
proof -
  obtain h where h: "hash_password toy_digest demo_salt (lit ''abc'') = Inr h"
    by (simp add: hash_password_eq encodable_lit)
  have v: "verify_password toy_digest (lit ''abc'') h = Inr (True, [])"
    unfolding verify_hash [OF h] by (simp add: encodable_lit)
  have l: "length (uc_password (demo_create\<lparr>uc_password := lit ''abc''\<rparr>)) < 6"
    by (simp add: lit_def)
  have "create_user toy_digest empty_db (demo_create\<lparr>uc_password := lit ''abc''\<rparr>)
          demo_salt 500 501
        = (Inr (Some \<lparr>u_id = Some 1, username = lit ''demo'', email = lit ''demo@example.com'',
                       password_hash = h, full_name = lit ''Demo User'', is_active = True,
                       is_authenticated = False, last_login = None, created_at = 500,
                       updated_at = 501\<rparr>),
           empty_db\<lparr>users := [\<lparr>u_id = Some 1, username = lit ''demo'',
                       email = lit ''demo@example.com'',
                       password_hash = h, full_name = lit ''Demo User'', is_active = True,
                       is_authenticated = False, last_login = None, created_at = 500,
                       updated_at = 501\<rparr>]\<rparr>)"
    by (simp add: create_user_def empty_db_def demo_create_def h next_id_def Let_def)
  with v l show ?thesis by simp
qed

text \<open>
  C9, amended: the input schema of user creation (\<open>UserCreate\<close>) rejects any password
  shorter than 6 characters when the object is constructed, so every \<open>UserCreate\<close> that
  the constructor returns carries a password of at least 6 characters. \<open>create_user\<close>
  itself checks no length: handed a \<open>UserCreate\<close> whose username and email are free
  and whose password can be encoded, it stores the user whatever the length of the
  password.
\<close>

theorem UserCreate_min_password:
  "(length p < 6 \<longrightarrow> UserCreate n m p f = Inl ValidationError) \<and>
   (UserCreate n m p f = Inr ud \<longrightarrow> uc_password ud = p \<and> 6 \<le> length (uc_password ud)) \<and>
   (find (\<lambda>x. username x = uc_username ud' \<or> email x = uc_email ud') (users d) = None \<and>
    encodable (uc_password ud') \<longrightarrow>
      (\<exists>w. create_user D d ud' rnd created updated = (Inr (Some w), d\<lparr>users := users d @ [w]\<rparr>) \<and>
           username w = uc_username ud' \<and> email w = uc_email ud' \<and>
           hash_password D rnd (uc_password ud') = Inr (password_hash w)))"
proof (intro conjI impI)
  assume "length p < 6"
  then show "UserCreate n m p f = Inl ValidationError" by (simp add: UserCreate_def)
next
  assume "UserCreate n m p f = Inr ud"
  then show "uc_password ud = p" "6 \<le> length (uc_password ud)"
    by (auto simp: UserCreate_def split: if_splits)
next
  assume a: "find (\<lambda>x. username x = uc_username ud' \<or> email x = uc_email ud') (users d) = None \<and>
    encodable (uc_password ud')"
  then obtain h where h: "hash_password D rnd (uc_password ud') = Inr h"
    by (auto simp: hash_password_eq)
  with a show "\<exists>w. create_user D d ud' rnd created updated = (Inr (Some w), d\<lparr>users := users d @ [w]\<rparr>) \<and>
           username w = uc_username ud' \<and> email w = uc_email ud' \<and>
           hash_password D rnd (uc_password ud') = Inr (password_hash w)"
    by (simp add: create_user_def Let_def)
qed

theorem UserCreate_min_password_witness:
  "length (lit ''demo1'') < 6 \<and>
   UserCreate (lit ''demo'') (lit ''demo@example.com'') (lit ''demo1'') (lit ''Demo User'')
     = Inl ValidationError \<and>
   UserCreate (lit ''demo'') (lit ''demo@example.com'') (lit ''demo123'') (lit ''Demo User'')
     = Inr demo_create \<and>
   6 \<le> length (uc_password demo_create) \<and>
   find (\<lambda>x. username x = uc_username demo_create \<or> email x = uc_email demo_create)
     (users empty_db) = None \<and>
   encodable (uc_password demo_create) \<and>
   (\<exists>w. create_user toy_digest empty_db demo_create demo_salt 500 501
          = (Inr (Some w), empty_db\<lparr>users := users empty_db @ [w]\<rparr>) \<and>
        username w = uc_username demo_create \<and> email w = uc_email demo_create \<and>
        hash_password toy_digest demo_salt (uc_password demo_create) = Inr (password_hash w))"
proof -
  have h: "UserCreate (lit ''demo'') (lit ''demo@example.com'') (lit ''demo123'') (lit ''Demo User'')
     = Inr demo_create"
    by (simp add: UserCreate_def demo_create_def lit_def)
  have s: "length (lit ''demo1'') < 6" by (simp add: lit_def)
  have k: "find (\<lambda>x. username x = uc_username demo_create \<or> email x = uc_email demo_create)
     (users empty_db) = None" by (simp add: empty_db_def)
  have e: "encodable (uc_password demo_create)" by (simp add: demo_create_def encodable_lit)
  from UserCreate_min_password [where p = "lit ''demo1''" and n = "lit ''demo''"
      and m = "lit ''demo@example.com''" and f = "lit ''Demo User''"] s
  have a: "UserCreate (lit ''demo'') (lit ''demo@example.com'') (lit ''demo1'') (lit ''Demo User'')
     = Inl ValidationError"
    by blast
  note t = UserCreate_min_password [where p = "lit ''demo123''" and n = "lit ''demo''"
      and m = "lit ''demo@example.com''" and f = "lit ''Demo User''" and ud = demo_create
      and ud' = demo_create and d = empty_db and D = toy_digest and rnd = demo_salt
      and created = 500 and updated = 501]
  from t h have b: "6 \<le> length (uc_password demo_create)" by blast
  from t k e have c: "\<exists>w. create_user toy_digest empty_db demo_create demo_salt 500 501
          = (Inr (Some w), empty_db\<lparr>users := users empty_db @ [w]\<rparr>) \<and>
        username w = uc_username demo_create \<and> email w = uc_email demo_create \<and>
        hash_password toy_digest demo_salt (uc_password demo_create) = Inr (password_hash w)"
    by blast
  from s a h b k e c show ?thesis by (intro conjI)
qed

section \<open>Claims about the client storage\<close>

text \<open>
  C6, as stated: after one call the pending-redirect slot is absent and a second call
  returns the default landing path. With \<open>/profile\<close> in the slot, the call returns
  \<open>/profile\<close>, the slot still holds \<open>/profile\<close> afterwards, and the second call does not
  return \<open>/dashboard\<close>.
\<close>

theorem get_redirect_url_clears_counterexample:
  "fst (get_redirect_url [(lit ''redirect_after_login'') \<mapsto> (lit ''/profile'')]) = (lit ''/profile'') \<and>
   snd (get_redirect_url [(lit ''redirect_after_login'') \<mapsto> (lit ''/profile'')]) (lit ''redirect_after_login'')
     = Some (lit ''/profile'') \<and>
   fst (get_redirect_url (snd (get_redirect_url [(lit ''redirect_after_login'') \<mapsto> (lit ''/profile'')])))
     \<noteq> (lit ''/dashboard'')"
  by (simp add: get_redirect_url_def lit_eq_iff)

text \<open>
  C6, amended: \<open>get_redirect_url\<close> returns the value of the pending-redirect slot, or
  \<open>/dashboard\<close> when none is set, and leaves the storage as it is; a second consecutive
  call returns what the first returned.
\<close>

theorem get_redirect_url_keeps_slot:
  "fst (get_redirect_url st)
     = (case st (lit ''redirect_after_login'') of None \<Rightarrow> (lit ''/dashboard'') | Some v \<Rightarrow> v) \<and>
   snd (get_redirect_url st) = st \<and>
   fst (get_redirect_url (snd (get_redirect_url st))) = fst (get_redirect_url st)"
  by (simp add: get_redirect_url_def)

end
